theory Spec2Isabelle
  imports Main "HOL-Library.Sublist" "HOL-Library.Multiset"
begin

section \<open>The analysis engine's data, as the converter reads it\<close>

text \<open>
  A \<open>ts.Node\<close> is an object of the analysis engine. The converter reads its \<open>kind\<close>
  and, for a source file, its \<open>fileName\<close>, and it compares nodes by object identity
  (\<open>Array.prototype.includes\<close>). The field \<open>node_id\<close> stands for that identity:
  two nodes are the same object exactly when they are equal as records.
\<close>

record node =
  node_id :: nat
  kind :: nat
  fileName :: string

text \<open>
  A \<open>ts.Diagnostic\<close>: the converter only inspects \<open>file\<close> (the field \<open>sourceFile\<close>), which is absent
  (\<open>undefined\<close>) for a diagnostic that belongs to no source file.
\<close>

record diagnostic =
  sourceFile :: "node option"
  code :: nat
  messageText :: string

text \<open>
  A \<open>ts.Program\<close>, as far as the converter calls it: each field is the result of the
  method of the same name.
\<close>

record program =
  getSourceFiles :: "node list"
  getOptionsDiagnostics :: "diagnostic list"
  getSyntacticDiagnostics :: "diagnostic list"
  getGlobalDiagnostics :: "diagnostic list"
  getSemanticDiagnostics :: "diagnostic list"

text \<open>
  The settings of the \<open>Application\<close> the converter reads. \<open>exclude\<close> holds, for
  each exclusion pattern, the matcher \<open>createMinimatch\<close> builds from it, as the
  predicate \<open>mm.match\<close> on file names.
\<close>

record application =
  ignoreCompilerErrors :: bool
  exclude :: "(string \<Rightarrow> bool) list"

section \<open>\<open>Converter.getCompilerErrors\<close>\<close>

text \<open>
  \<^verbatim>\<open>const isRelevantError = ({ file }) => !file || includedSourceFiles.includes(file);\<close>
\<close>

definition isRelevantError :: "node list \<Rightarrow> diagnostic \<Rightarrow> bool" where
  "isRelevantError includedSourceFiles d =
     (case sourceFile d of
        None \<Rightarrow> True
      | Some f \<Rightarrow> f \<in> set includedSourceFiles)"

text \<open>
  The four \<open>if (diagnostics.length) return diagnostics\<close> steps of the method, in the
  order of the source. The first argument is \<open>this.application\<close>.
\<close>

definition getCompilerErrors :: "application \<Rightarrow> program \<Rightarrow> node list \<Rightarrow> diagnostic list" where
  "getCompilerErrors app prog includedSourceFiles =
     (if ignoreCompilerErrors app then []
      else
        let diagnostics = filter (isRelevantError includedSourceFiles) (getOptionsDiagnostics prog) in
        if diagnostics \<noteq> [] then diagnostics
        else
          let diagnostics = filter (isRelevantError includedSourceFiles) (getSyntacticDiagnostics prog) in
          if diagnostics \<noteq> [] then diagnostics
          else
            let diagnostics = filter (isRelevantError includedSourceFiles) (getGlobalDiagnostics prog) in
            if diagnostics \<noteq> [] then diagnostics
            else
              let diagnostics = filter (isRelevantError includedSourceFiles) (getSemanticDiagnostics prog) in
              if diagnostics \<noteq> [] then diagnostics
              else [])"

text \<open>
  The classifier in the words of the specification: the four categories in their fixed
  order, each filtered to the included files; the first filtered category that is not
  empty is the answer, the empty list when there is none or when suppression is asked.
\<close>

definition diagnosticCategories :: "program \<Rightarrow> diagnostic list list" where
  "diagnosticCategories prog =
     [getOptionsDiagnostics prog, getSyntacticDiagnostics prog,
      getGlobalDiagnostics prog, getSemanticDiagnostics prog]"

definition classifier_spec :: "bool \<Rightarrow> program \<Rightarrow> node list \<Rightarrow> diagnostic list" where
  "classifier_spec suppress prog included =
     (if suppress then []
      else
        (case find (\<lambda>c. c \<noteq> []) (map (filter (isRelevantError included)) (diagnosticCategories prog)) of
           None \<Rightarrow> []
         | Some c \<Rightarrow> c))"

section \<open>The option declarations taken over from the analysis engine\<close>

definition IGNORED_OPTIONS :: "string list" where
  "IGNORED_OPTIONS =
     [''out'', ''version'', ''help'', ''emitDeclarationOnly'', ''watch'', ''declaration'',
      ''declarationDir'', ''declarationMap'', ''mapRoot'', ''sourceMap'', ''inlineSources'',
      ''removeComments'', ''incremental'', ''tsBuildInfoFile'', ''configFilePath'']"

text \<open>\<^verbatim>\<open>export const IGNORED: ReadonlySet<string> = new Set(IGNORED_OPTIONS);\<close>\<close>

definition IGNORED :: "string set" where
  "IGNORED = set IGNORED_OPTIONS"

text \<open>
  \<open>_ts.CommandLineOption\<close>. Its \<open>type\<close> is one of the strings the \<open>switch\<close> of
  \<open>createTSDeclaration\<close> tests, or a map object (a list of key and value pairs
  here). The optional members \<open>shortName\<close> and \<open>description\<close> are \<open>None\<close> when
  they are \<open>undefined\<close>; of a description the code reads the \<open>key\<close> only.
\<close>

datatype optionType = TypeName string | TypeMap "(string \<times> string) list"

record commandLineOption =
  name :: string
  shortName :: "string option"
  description :: "string option"
  optType :: optionType

datatype parameterType =
  ParameterType_String | ParameterType_Number | ParameterType_Boolean
  | ParameterType_Map | ParameterType_Mixed | ParameterType_Array

datatype parameterScope = ParameterScope_TypeDoc | ParameterScope_TypeScript

text \<open>
  A \<open>DeclarationOption\<close>; \<open>helpText\<close> is the member \<open>help\<close> and \<open>mapOf\<close> the member
  \<open>map\<close>, set in the default branch only.
\<close>

record declarationOption =
  declName :: string
  short :: "string option"
  helpText :: string
  scope :: parameterScope
  paramType :: parameterType
  mapOf :: "optionType option"

definition createTSDeclaration :: "commandLineOption \<Rightarrow> declarationOption" where
  "createTSDeclaration opt =
     (let param = \<lparr> declName = name opt,
                     short = shortName opt,
                     helpText = (case description opt of Some k \<Rightarrow> k | None \<Rightarrow> ''''),
                     scope = ParameterScope_TypeScript,
                     paramType = ParameterType_Map,
                     mapOf = None \<rparr>
      in
        if optType opt = TypeName ''number'' then param\<lparr>paramType := ParameterType_Number\<rparr>
        else if optType opt = TypeName ''boolean'' then param\<lparr>paramType := ParameterType_Boolean\<rparr>
        else if optType opt = TypeName ''string'' then param\<lparr>paramType := ParameterType_String\<rparr>
        else if optType opt = TypeName ''list'' then param\<lparr>paramType := ParameterType_Array\<rparr>
        else if optType opt = TypeName ''object'' then param\<lparr>paramType := ParameterType_Mixed\<rparr>
        else param\<lparr>paramType := ParameterType_Map, mapOf := Some (optType opt)\<rparr>)"

text \<open>
  \<open>addTSOptions\<close>: the argument is \<open>_ts.optionDeclarations\<close>, the engine's own table;
  the result is the list handed to \<open>container.addDeclarations\<close>.
\<close>

definition addTSOptions :: "commandLineOption list \<Rightarrow> declarationOption list" where
  "addTSOptions optionDeclarations =
     map createTSDeclaration (filter (\<lambda>decl. name decl \<notin> IGNORED) optionDeclarations)"

text \<open>
  The deny-list in the words of the claim about it: \<open>out\<close>, \<open>version\<close>,
  \<open>help\<close>, the declaration-emission flags, the source-map flags, the
  incremental-build flags and \<open>configFilePath\<close>, each group with the engine's options
  of that kind.
\<close>

definition declarationEmissionFlags :: "string list" where
  "declarationEmissionFlags =
     [''declaration'', ''declarationDir'', ''declarationMap'', ''emitDeclarationOnly'']"

definition sourceMapFlags :: "string list" where
  "sourceMapFlags = [''sourceMap'', ''inlineSourceMap'', ''inlineSources'', ''mapRoot'', ''sourceRoot'']"

definition incrementalBuildFlags :: "string list" where
  "incrementalBuildFlags = [''incremental'', ''tsBuildInfoFile'', ''composite'']"

definition denyList_claimed :: "string list" where
  "denyList_claimed =
     [''out'', ''version'', ''help''] @ declarationEmissionFlags @ sourceMapFlags
       @ incrementalBuildFlags @ [''configFilePath'']"

section \<open>The conversion context\<close>

text \<open>
  \<open>context.visitStack\<close> is a reference to an array object, and \<open>convertNode\<close>
  copies that array (\<open>slice\<close>), writes to the copy (\<open>push\<close>) and assigns references.
  The array objects therefore live in a store, \<open>arrays\<close>: a reference is an index
  into it, \<open>slice\<close> allocates the next index, and an array once allocated is never
  freed. \<open>visitStack\<close> is the reference held by the context. A reference of the
  running program always points to an allocated array (\<open>validContext\<close>).

  \<open>reflections\<close> is \<open>context.project.reflections\<close>, the object that maps a
  reflection id to the reflection, as the list of its own properties in the order in
  which they were created (of two entries with one key the first one counts);
  \<open>other\<close> is
  everything else listeners and converters read and write (scope, symbol tables, the
  rest of the project).
\<close>

record ('r, 'x) conversionContext =
  arrays :: "node list list"
  visitStack :: nat
  reflections :: "(nat \<times> 'r) list"
  other :: 'x

definition validContext :: "('r, 'x) conversionContext \<Rightarrow> bool" where
  "validContext ctx = (visitStack ctx < length (arrays ctx))"

text \<open>The contents of the array \<open>context.visitStack\<close> points to.\<close>

definition visited :: "('r, 'x) conversionContext \<Rightarrow> node list" where
  "visited ctx = arrays ctx ! visitStack ctx"

text \<open>
  \<open>Array.prototype.slice()\<close> allocates a copy and returns the reference to it;
  \<open>push\<close> appends in place; \<open>includes\<close> compares by identity.
\<close>

definition array_slice :: "node list list \<Rightarrow> nat \<Rightarrow> node list list \<times> nat" where
  "array_slice store ref = (store @ [store ! ref], length store)"

definition array_push :: "node list list \<Rightarrow> nat \<Rightarrow> node \<Rightarrow> node list list" where
  "array_push store ref x = store[ref := store ! ref @ [x]]"

definition array_includes :: "node list list \<Rightarrow> nat \<Rightarrow> node \<Rightarrow> bool" where
  "array_includes store ref x = (x \<in> set (store ! ref))"

section \<open>The converter and its registries\<close>

text \<open>
  A call of \<open>convertNode\<close> or of a node converter's \<open>convert\<close> returns the context
  as it left it and the reflection, or \<open>undefined\<close> (\<open>None\<close> inside). The outer
  \<open>None\<close> is a call that does not return: \<open>convertNode\<close> and the node converters
  call each other, and the recursion of the model is bounded by a fuel argument.

  A node converter's \<open>convert(context, node)\<close> calls back into
  \<open>converter.convertNode\<close> for nested constructs; its first argument here is that
  method.
\<close>

type_synonym ('r, 'x) outcome = "(('r, 'x) conversionContext \<times> 'r option) option"

type_synonym ('r, 'x) convertNodeMethod =
  "('r, 'x) conversionContext \<Rightarrow> node \<Rightarrow> ('r, 'x) outcome"

type_synonym ('r, 'x) nodeConverter =
  "('r, 'x) convertNodeMethod \<Rightarrow> ('r, 'x) conversionContext \<Rightarrow> node \<Rightarrow> ('r, 'x) outcome"

text \<open>
  A \<open>ts.Type\<close> object, by its identity. A \<open>ConverterTypeComponent\<close> has a numeric
  \<open>priority\<close> and may or may not have each of the four members
  \<open>supportsNode\<close>, \<open>convertNode\<close>, \<open>supportsType\<close>, \<open>convertType\<close>
  (\<open>None\<close>: the member is not \<open>in\<close> the object). \<open>component_id\<close> is the
  identity of the object. Priorities are integers here.
\<close>

type_synonym tsType = nat

record ('c, 'ty) converterTypeComponent =
  component_id :: nat
  priority :: int
  supportsNode :: "('c \<Rightarrow> node \<Rightarrow> tsType option \<Rightarrow> bool) option"
  convertNodeMember :: "('c \<Rightarrow> node \<Rightarrow> tsType option \<Rightarrow> 'c \<times> 'ty option) option"
  supportsType :: "('c \<Rightarrow> tsType \<Rightarrow> bool) option"
  convertTypeMember :: "('c \<Rightarrow> tsType \<Rightarrow> 'c \<times> 'ty option) option"

text \<open>
  The events \<open>convert\<close> and \<open>resolve\<close> trigger, with the reflection a
  \<open>resolveReflection\<close> event carries.
\<close>

datatype 'r event =
  EVENT_BEGIN | EVENT_END | EVENT_RESOLVE_BEGIN | EVENT_RESOLVE 'r | EVENT_RESOLVE_END

text \<open>
  The \<open>Converter\<close> object: its three registries, and \<open>listeners\<close>, what all
  handlers registered for an event do to the context when the event is triggered.
  Handlers return; one that throws ends the run and is outside this model.
\<close>

record ('r, 'x, 'ty) converter =
  nodeConverters :: "nat \<rightharpoonup> ('r, 'x) nodeConverter"
  typeNodeConverters :: "(('r, 'x) conversionContext, 'ty) converterTypeComponent list"
  typeTypeConverters :: "(('r, 'x) conversionContext, 'ty) converterTypeComponent list"
  listeners :: "'r event \<Rightarrow> ('r, 'x) conversionContext \<Rightarrow> ('r, 'x) conversionContext"

definition trigger ::
  "('r, 'x, 'ty) converter \<Rightarrow> 'r event \<Rightarrow> ('r, 'x) conversionContext \<Rightarrow> ('r, 'x) conversionContext" where
  "trigger this ev ctx = listeners this ev ctx"

definition initialize :: "('r, 'x, 'ty) converter \<Rightarrow> ('r, 'x, 'ty) converter" where
  "initialize this =
     this\<lparr>nodeConverters := Map.empty, typeTypeConverters := [], typeNodeConverters := []\<rparr>"

text \<open>
  \<^verbatim>\<open>this.typeNodeConverters.sort((a, b) => b.priority - a.priority)\<close>:
  \<open>Array.prototype.sort\<close> is stable (ECMAScript 2019), and the comparator orders
  by descending priority, which is ascending order of the negated priority.
\<close>

definition sortByPriority ::
  "('c, 'ty) converterTypeComponent list \<Rightarrow> ('c, 'ty) converterTypeComponent list" where
  "sortByPriority cs = sort_key (\<lambda>a. - priority a) cs"

definition hasNodeMembers :: "('c, 'ty) converterTypeComponent \<Rightarrow> bool" where
  "hasNodeMembers c = (supportsNode c \<noteq> None \<and> convertNodeMember c \<noteq> None)"

definition hasTypeMembers :: "('c, 'ty) converterTypeComponent \<Rightarrow> bool" where
  "hasTypeMembers c = (supportsType c \<noteq> None \<and> convertTypeMember c \<noteq> None)"

definition addTypeConverter ::
  "(('r, 'x) conversionContext, 'ty) converterTypeComponent \<Rightarrow> ('r, 'x, 'ty) converter
     \<Rightarrow> ('r, 'x, 'ty) converter" where
  "addTypeConverter c this =
     (let this1 =
            (if hasNodeMembers c
             then this\<lparr>typeNodeConverters := sortByPriority (typeNodeConverters this @ [c])\<rparr>
             else this)
      in
        if hasTypeMembers c
        then this1\<lparr>typeTypeConverters := sortByPriority (typeTypeConverters this1 @ [c])\<rparr>
        else this1)"

text \<open>
  \<open>indexOf\<close> finds the first entry that is the same object and \<open>splice(i, 1)\<close>
  removes it; nothing happens when there is none (\<open>remove1\<close>).
\<close>

definition removeTypeConverter ::
  "(('r, 'x) conversionContext, 'ty) converterTypeComponent \<Rightarrow> ('r, 'x, 'ty) converter
     \<Rightarrow> ('r, 'x, 'ty) converter" where
  "removeTypeConverter c this =
     (let this1 = this\<lparr>typeTypeConverters := remove1 c (typeTypeConverters this)\<rparr>
      in this1\<lparr>typeNodeConverters := remove1 c (typeNodeConverters this1)\<rparr>)"

text \<open>
  A history of registrations and removals, applied to an initialised converter, and
  the components registered and not removed at its end, in registration order.
\<close>

datatype ('c, 'ty) registryOp =
  Register "('c, 'ty) converterTypeComponent"
  | Unregister "('c, 'ty) converterTypeComponent"

fun applyOp ::
  "(('r, 'x) conversionContext, 'ty) registryOp \<Rightarrow> ('r, 'x, 'ty) converter \<Rightarrow> ('r, 'x, 'ty) converter" where
  "applyOp (Register c) this = addTypeConverter c this"
| "applyOp (Unregister c) this = removeTypeConverter c this"

fun applyOps ::
  "(('r, 'x) conversionContext, 'ty) registryOp list \<Rightarrow> ('r, 'x, 'ty) converter \<Rightarrow> ('r, 'x, 'ty) converter" where
  "applyOps [] this = this"
| "applyOps (op # ops) this = applyOps ops (applyOp op this)"

fun registered ::
  "('c, 'ty) registryOp list \<Rightarrow> ('c, 'ty) converterTypeComponent list
     \<Rightarrow> ('c, 'ty) converterTypeComponent list" where
  "registered [] cs = cs"
| "registered (Register c # ops) cs = registered ops (cs @ [c])"
| "registered (Unregister c # ops) cs = registered ops (remove1 c cs)"

definition descendingPriority :: "('c, 'ty) converterTypeComponent list \<Rightarrow> bool" where
  "descendingPriority cs = sorted_wrt (\<lambda>a b. priority a \<ge> priority b) cs"

section \<open>\<open>Converter.convertNode\<close>\<close>

text \<open>
  The fuel bounds the depth of nested calls of \<open>convertNode\<close>: each call hands the
  converter it dispatches to a \<open>convertNode\<close> with one unit less, and a call without
  fuel does not return.
\<close>

fun convertNode ::
  "nat \<Rightarrow> ('r, 'x, 'ty) converter \<Rightarrow> ('r, 'x) conversionContext \<Rightarrow> node \<Rightarrow> ('r, 'x) outcome" where
  "convertNode 0 this ctx nd = None"
| "convertNode (Suc fuel) this ctx nd =
     (if array_includes (arrays ctx) (visitStack ctx) nd then Some (ctx, None)
      else
        let oldVisitStack = visitStack ctx;
            (store1, copy) = array_slice (arrays ctx) oldVisitStack;
            ctx1 = ctx\<lparr>arrays := store1, visitStack := copy\<rparr>;
            ctx2 = ctx1\<lparr>arrays := array_push (arrays ctx1) (visitStack ctx1) nd\<rparr>
        in
          (case nodeConverters this (kind nd) of
             None \<Rightarrow> Some (ctx2\<lparr>visitStack := oldVisitStack\<rparr>, None)
           | Some c \<Rightarrow>
               (case c (convertNode fuel this) ctx2 nd of
                  None \<Rightarrow> None
                | Some (ctx3, result) \<Rightarrow> Some (ctx3\<lparr>visitStack := oldVisitStack\<rparr>, result))))"

text \<open>
  What the source leaves to the node converters, as far as termination needs it. A
  node converter is well behaved for the nodes \<open>N\<close> of a program when this holds
  for every call of it for a node of \<open>N\<close>: suppose each call it makes back to
  \<open>convertNode\<close>, for a node of \<open>N\<close> and in a context that holds the
  \<open>visitStack\<close> reference the converter was given and in which no array that existed
  at its start has been written to, returns and leaves that reference and the existing
  arrays as they were; then the converter returns, and no array that existed when it
  was called has been written to. Arrays may be allocated on the way. No converter of
  the repository reads or writes \<open>visitStack\<close>.
\<close>

definition wellBehaved :: "node set \<Rightarrow> ('r, 'x) nodeConverter \<Rightarrow> bool" where
  "wellBehaved N c =
     (\<forall>self ctx nd.
        nd \<in> N \<longrightarrow>
        (\<forall>ctx' m. m \<in> N \<and> prefix (arrays ctx) (arrays ctx') \<and> visitStack ctx' = visitStack ctx
           \<longrightarrow> (\<exists>ctx'' r. self ctx' m = Some (ctx'', r) \<and> prefix (arrays ctx') (arrays ctx'')
                  \<and> visitStack ctx'' = visitStack ctx'))
        \<longrightarrow> (\<exists>ctx'' r. c self ctx nd = Some (ctx'', r) \<and> prefix (arrays ctx) (arrays ctx'')))"

definition wellBehavedConverters :: "node set \<Rightarrow> ('r, 'x, 'ty) converter \<Rightarrow> bool" where
  "wellBehavedConverters N this = (\<forall>k c. nodeConverters this k = Some c \<longrightarrow> wellBehaved N c)"

section \<open>\<open>Converter.convertType\<close>\<close>

text \<open>Calling a member that is \<open>undefined\<close> throws a \<open>TypeError\<close>.\<close>

datatype jsError = TypeError

text \<open>
  The two \<open>for ... of\<close> loops. \<open>None\<close>: the loop ended without a \<open>return\<close>.
\<close>

fun scanNodeChain ::
  "('c, 'ty) converterTypeComponent list \<Rightarrow> 'c \<Rightarrow> node \<Rightarrow> tsType option
     \<Rightarrow> (jsError + 'c \<times> 'ty option) option" where
  "scanNodeChain [] ctx nd ty = None"
| "scanNodeChain (c # rest) ctx nd ty =
     (case supportsNode c of
        None \<Rightarrow> Some (Inl TypeError)
      | Some supports \<Rightarrow>
          if supports ctx nd ty
          then (case convertNodeMember c of
                  None \<Rightarrow> Some (Inl TypeError)
                | Some conv \<Rightarrow> Some (Inr (conv ctx nd ty)))
          else scanNodeChain rest ctx nd ty)"

fun scanTypeChain ::
  "('c, 'ty) converterTypeComponent list \<Rightarrow> 'c \<Rightarrow> tsType \<Rightarrow> (jsError + 'c \<times> 'ty option) option" where
  "scanTypeChain [] ctx ty = None"
| "scanTypeChain (c # rest) ctx ty =
     (case supportsType c of
        None \<Rightarrow> Some (Inl TypeError)
      | Some supports \<Rightarrow>
          if supports ctx ty
          then (case convertTypeMember c of
                  None \<Rightarrow> Some (Inl TypeError)
                | Some conv \<Rightarrow> Some (Inr (conv ctx ty)))
          else scanTypeChain rest ctx ty)"

text \<open>
  \<open>convertType(context, node?, type?)\<close>. \<open>getTypeAtLocation\<close> is the context's
  method of that name, which may find no type.
\<close>

definition convertType ::
  "('r, 'x, 'ty) converter \<Rightarrow> (('r, 'x) conversionContext \<Rightarrow> node \<Rightarrow> tsType option)
     \<Rightarrow> ('r, 'x) conversionContext \<Rightarrow> node option \<Rightarrow> tsType option
     \<Rightarrow> jsError + ('r, 'x) conversionContext \<times> 'ty option" where
  "convertType this getTypeAtLocation ctx node_arg type_arg =
     (let ty = (case node_arg of
                  None \<Rightarrow> type_arg
                | Some nd \<Rightarrow> (case type_arg of Some t \<Rightarrow> Some t | None \<Rightarrow> getTypeAtLocation ctx nd));
          nodeBased = (case node_arg of
                  None \<Rightarrow> None
                | Some nd \<Rightarrow> scanNodeChain (typeNodeConverters this) ctx nd ty)
      in
        (case nodeBased of
           Some r \<Rightarrow> r
         | None \<Rightarrow>
             (case ty of
                None \<Rightarrow> Inr (ctx, None)
              | Some t \<Rightarrow>
                  (case scanTypeChain (typeTypeConverters this) ctx t of
                     Some r \<Rightarrow> r
                   | None \<Rightarrow> Inr (ctx, None)))))"

text \<open>
  The dispatch in the words of the specification: the first converter of a chain
  whose predicate holds converts, no type is produced when none does. (An entry of a
  chain has the members of its chain; the \<open>None\<close> cases below are there for totality.)
\<close>

definition nodeSupports ::
  "'c \<Rightarrow> node \<Rightarrow> tsType option \<Rightarrow> ('c, 'ty) converterTypeComponent \<Rightarrow> bool" where
  "nodeSupports ctx nd ty c = (case supportsNode c of Some supports \<Rightarrow> supports ctx nd ty | None \<Rightarrow> False)"

definition typeSupports :: "'c \<Rightarrow> tsType \<Rightarrow> ('c, 'ty) converterTypeComponent \<Rightarrow> bool" where
  "typeSupports ctx t c = (case supportsType c of Some supports \<Rightarrow> supports ctx t | None \<Rightarrow> False)"

definition typeChain_spec ::
  "('r, 'x, 'ty) converter \<Rightarrow> ('r, 'x) conversionContext \<Rightarrow> tsType option
     \<Rightarrow> ('r, 'x) conversionContext \<times> 'ty option" where
  "typeChain_spec this ctx ty =
     (case ty of
        None \<Rightarrow> (ctx, None)
      | Some t \<Rightarrow>
          (case find (typeSupports ctx t) (typeTypeConverters this) of
             None \<Rightarrow> (ctx, None)
           | Some c \<Rightarrow>
               (case convertTypeMember c of Some conv \<Rightarrow> conv ctx t | None \<Rightarrow> (ctx, None))))"

definition convertType_spec ::
  "('r, 'x, 'ty) converter \<Rightarrow> (('r, 'x) conversionContext \<Rightarrow> node \<Rightarrow> tsType option)
     \<Rightarrow> ('r, 'x) conversionContext \<Rightarrow> node option \<Rightarrow> tsType option
     \<Rightarrow> ('r, 'x) conversionContext \<times> 'ty option" where
  "convertType_spec this getTypeAtLocation ctx node_arg type_arg =
     (case node_arg of
        None \<Rightarrow> typeChain_spec this ctx type_arg
      | Some nd \<Rightarrow>
          (let ty = (case type_arg of Some t \<Rightarrow> Some t | None \<Rightarrow> getTypeAtLocation ctx nd) in
           case find (nodeSupports ctx nd ty) (typeNodeConverters this) of
             Some c \<Rightarrow>
               (case convertNodeMember c of Some conv \<Rightarrow> conv ctx nd ty | None \<Rightarrow> (ctx, None))
           | None \<Rightarrow> typeChain_spec this ctx ty))"

section \<open>\<open>Converter.compile\<close>, \<open>Converter.resolve\<close>, \<open>Converter.convert\<close>\<close>

text \<open>
  \<^verbatim>\<open>includedSourceFiles.forEach((sourceFile) => { this.convertNode(context, sourceFile); });\<close>
\<close>

fun convertSourceFiles ::
  "nat \<Rightarrow> ('r, 'x, 'ty) converter \<Rightarrow> ('r, 'x) conversionContext \<Rightarrow> node list
     \<Rightarrow> ('r, 'x) conversionContext option" where
  "convertSourceFiles fuel this ctx [] = Some ctx"
| "convertSourceFiles fuel this ctx (sf # rest) =
     (case convertNode fuel this ctx sf of
        None \<Rightarrow> None
      | Some (ctx', result) \<Rightarrow> convertSourceFiles fuel this ctx' rest)"

definition isExcluded :: "application \<Rightarrow> node \<Rightarrow> bool" where
  "isExcluded app f = list_ex (\<lambda>mm. mm (fileName f)) (exclude app)"

definition includedSourceFiles :: "application \<Rightarrow> program \<Rightarrow> node list" where
  "includedSourceFiles app prog = filter (\<lambda>f. \<not> isExcluded app f) (getSourceFiles prog)"

text \<open>
  \<open>compile\<close> returns the context as it left it and the diagnostics; \<open>None\<close> when a
  conversion does not return.
\<close>

definition compile ::
  "nat \<Rightarrow> ('r, 'x, 'ty) converter \<Rightarrow> application \<Rightarrow> program \<Rightarrow> ('r, 'x) conversionContext
     \<Rightarrow> (('r, 'x) conversionContext \<times> diagnostic list) option" where
  "compile fuel this app prog ctx =
     (let included = includedSourceFiles app prog;
          errors = getCompilerErrors app prog included
      in
        if errors \<noteq> [] then Some (ctx, errors)
        else
          (case convertSourceFiles fuel this ctx included of
             None \<Rightarrow> None
           | Some ctx' \<Rightarrow> Some (ctx', [])))"

text \<open>
  \<open>for (const id in project.reflections)\<close>: the ids are integer keys. A
  \<open>for ... in\<close> loop visits first the keys that are array indices, that is the
  integers below \<open>2 ^ 32 - 1 = 4294967295\<close>, in ascending order, and then the other
  keys in the order of their creation. The keys are those the object has when the loop
  starts; a key deleted before its turn is not visited (the language's rule, and the
  \<open>hasOwnProperty\<close> test of the loop body), a key added during the loop is not
  visited either.
\<close>

definition isArrayIndex :: "nat \<Rightarrow> bool" where
  "isArrayIndex k = (k < 4294967295)"

definition insertionOrder :: "(nat \<times> 'r) list \<Rightarrow> nat list" where
  "insertionOrder rs = rev (remdups (rev (map fst rs)))"

definition ownKeys :: "(nat \<times> 'r) list \<Rightarrow> nat list" where
  "ownKeys rs =
     (let ks = insertionOrder rs
      in sort (filter isArrayIndex ks) @ filter (\<lambda>k. \<not> isArrayIndex k) ks)"

text \<open>
  The loop returns the ids for which it triggered \<open>EVENT_RESOLVE\<close>, each with the
  reflection the event carried, in the order of the events.
\<close>

fun resolveLoop ::
  "('r, 'x, 'ty) converter \<Rightarrow> nat list \<Rightarrow> ('r, 'x) conversionContext
     \<Rightarrow> (nat \<times> 'r) list \<times> ('r, 'x) conversionContext" where
  "resolveLoop this [] ctx = ([], ctx)"
| "resolveLoop this (k # ids) ctx =
     (case map_of (reflections ctx) k of
        None \<Rightarrow> resolveLoop this ids ctx
      | Some r \<Rightarrow>
          (let ctx' = trigger this (EVENT_RESOLVE r) ctx;
               (fired, ctx'') = resolveLoop this ids ctx'
           in ((k, r) # fired, ctx'')))"

text \<open>
  The contexts the loop goes through: for each key of the list, the context in which
  the loop reaches it, which is the context the handlers of the events triggered for
  the earlier keys have left.
\<close>

fun turnContexts ::
  "('r, 'x, 'ty) converter \<Rightarrow> nat list \<Rightarrow> ('r, 'x) conversionContext
     \<Rightarrow> ('r, 'x) conversionContext list" where
  "turnContexts this [] ctx = []"
| "turnContexts this (k # ids) ctx =
     ctx # turnContexts this ids
             (case map_of (reflections ctx) k of
                None \<Rightarrow> ctx
              | Some r \<Rightarrow> trigger this (EVENT_RESOLVE r) ctx)"

definition resolve ::
  "('r, 'x, 'ty) converter \<Rightarrow> ('r, 'x) conversionContext
     \<Rightarrow> (nat \<times> 'r) list \<times> ('r, 'x) conversionContext" where
  "resolve this ctx =
     (let ctx1 = trigger this EVENT_RESOLVE_BEGIN ctx;
          (fired, ctx2) = resolveLoop this (ownKeys (reflections ctx1)) ctx1;
          ctx3 = trigger this EVENT_RESOLVE_END ctx2
      in (fired, ctx3))"

text \<open>\<open>Array.prototype.join\<close> with a separator.\<close>

fun join :: "string \<Rightarrow> string list \<Rightarrow> string" where
  "join sep [] = []"
| "join sep [x] = x"
| "join sep (x # y # ys) = x @ sep @ join sep (y # ys)"

definition danglingWarning :: "string list \<Rightarrow> string" where
  "danglingWarning dangling =
     join [CHR 0x0A]
       ([''Some names refer to reflections that do not exist.'',
         ''This can be caused by exporting a reflection only under a different name than it is declared when excludeNotExported is set'',
         ''or by a plugin removing reflections without removing references. The names that cannot be resolved are:'']
        @ dangling)"

text \<open>
  The result of \<open>convert\<close>: the \<open>ConverterResult\<close> with its \<open>errors\<close> and the
  \<open>project\<close> (the context that holds it, as \<open>convert\<close> leaves it), and beside them
  what \<open>convert\<close> did that a caller can observe: the messages it passed to
  \<open>logger.warn\<close> and the \<open>EVENT_RESOLVE\<close> events of its resolve pass.
\<close>

record ('r, 'x) converterResult =
  errors :: "diagnostic list"
  project :: "('r, 'x) conversionContext"
  warnings :: "string list"
  resolved :: "(nat \<times> 'r) list"

text \<open>
  \<open>convert\<close>, from the program \<open>ts.createProgram\<close> built for the file names and the
  context \<open>new Context(...)\<close> made for it. \<open>getDanglingReferences\<close> is the
  project's method of that name.
\<close>

definition convert ::
  "nat \<Rightarrow> ('r, 'x, 'ty) converter \<Rightarrow> application \<Rightarrow> (('r, 'x) conversionContext \<Rightarrow> string list)
     \<Rightarrow> program \<Rightarrow> ('r, 'x) conversionContext \<Rightarrow> ('r, 'x) converterResult option" where
  "convert fuel this app getDanglingReferences prog context0 =
     (let ctx1 = trigger this EVENT_BEGIN context0 in
      case compile fuel this app prog ctx1 of
        None \<Rightarrow> None
      | Some (ctx2, errs) \<Rightarrow>
          (let (fired, ctx3) = resolve this ctx2;
               dangling = getDanglingReferences ctx3;
               warned = (if dangling \<noteq> [] then [danglingWarning dangling] else []);
               ctx4 = trigger this EVENT_END ctx3
           in Some \<lparr> errors = errs, project = ctx4, warnings = warned, resolved = fired \<rparr>))"

section \<open>Example inputs\<close>

text \<open>
  A program of two source files, one of them excluded; the included file declares a
  type alias that refers to itself (\<open>type A = A[]\<close>), so converting the alias node
  asks for the conversion of the same node again.
\<close>

definition fileNode :: node where
  "fileNode = \<lparr> node_id = 1, kind = 290, fileName = ''src/a.ts'' \<rparr>"

definition aliasNode :: node where
  "aliasNode = \<lparr> node_id = 2, kind = 247, fileName = [] \<rparr>"

definition excludedFile :: node where
  "excludedFile = \<lparr> node_id = 3, kind = 290, fileName = ''lib/x.d.ts'' \<rparr>"

definition demoNodes :: "node set" where
  "demoNodes = {fileNode, aliasNode}"

definition aliasConverter :: "(string, string event list) nodeConverter" where
  "aliasConverter self ctx nd =
     (case self ctx nd of
        None \<Rightarrow> None
      | Some (ctx', r) \<Rightarrow>
          Some (ctx'\<lparr>reflections := reflections ctx' @ [(length (reflections ctx'), ''A'')]\<rparr>, Some ''A''))"

definition sourceFileConverter :: "(string, string event list) nodeConverter" where
  "sourceFileConverter self ctx nd =
     (case self ctx aliasNode of
        None \<Rightarrow> None
      | Some (ctx', r) \<Rightarrow> Some (ctx', None))"

definition recordingListeners ::
  "string event \<Rightarrow> (string, string event list) conversionContext \<Rightarrow> (string, string event list) conversionContext" where
  "recordingListeners ev ctx = ctx\<lparr>other := other ctx @ [ev]\<rparr>"

definition demoConverter :: "(string, string event list, string) converter" where
  "demoConverter =
     \<lparr> nodeConverters = [247 \<mapsto> aliasConverter, 290 \<mapsto> sourceFileConverter],
       typeNodeConverters = [],
       typeTypeConverters = [],
       listeners = recordingListeners \<rparr>"

definition demoContext :: "(string, string event list) conversionContext" where
  "demoContext = \<lparr> arrays = [[]], visitStack = 0, reflections = [], other = [] \<rparr>"

definition demoApplication :: application where
  "demoApplication = \<lparr> ignoreCompilerErrors = False, exclude = [\<lambda>fileName. take 4 fileName = ''lib/''] \<rparr>"

definition libraryDiagnostic :: diagnostic where
  "libraryDiagnostic = \<lparr> sourceFile = Some excludedFile, code = 2304, messageText = ''Cannot find name'' \<rparr>"

definition filelessDiagnostic :: diagnostic where
  "filelessDiagnostic = \<lparr> sourceFile = None, code = 1005, messageText = ''Expected'' \<rparr>"

definition semanticDiagnostic :: diagnostic where
  "semanticDiagnostic = \<lparr> sourceFile = Some fileNode, code = 2322, messageText = ''Not assignable'' \<rparr>"

definition failingProgram :: program where
  "failingProgram =
     \<lparr> getSourceFiles = [fileNode, excludedFile],
       getOptionsDiagnostics = [libraryDiagnostic],
       getSyntacticDiagnostics = [libraryDiagnostic, filelessDiagnostic],
       getGlobalDiagnostics = [],
       getSemanticDiagnostics = [semanticDiagnostic] \<rparr>"

definition cleanProgram :: program where
  "cleanProgram =
     \<lparr> getSourceFiles = [fileNode, excludedFile],
       getOptionsDiagnostics = [],
       getSyntacticDiagnostics = [],
       getGlobalDiagnostics = [],
       getSemanticDiagnostics = [libraryDiagnostic] \<rparr>"

definition suppressingApplication :: application where
  "suppressingApplication = demoApplication\<lparr>ignoreCompilerErrors := True\<rparr>"

definition misconfiguredProgram :: program where
  "misconfiguredProgram =
     \<lparr> getSourceFiles = [fileNode],
       getOptionsDiagnostics = [filelessDiagnostic],
       getSyntacticDiagnostics = [],
       getGlobalDiagnostics = [],
       getSemanticDiagnostics = [] \<rparr>"

definition demoResultContext :: "(string, string event list) conversionContext" where
  "demoResultContext =
     \<lparr> arrays = [[], [fileNode], [fileNode, aliasNode]], visitStack = 0,
       reflections = [(0, ''A'')], other = [] \<rparr>"

text \<open>A few entries of the engine's option table.\<close>

definition engineOptions :: "commandLineOption list" where
  "engineOptions =
     [\<lparr> name = ''out'', shortName = None, description = Some ''Concatenate_and_emit_output_to_single_file'',
         optType = TypeName ''string'' \<rparr>,
      \<lparr> name = ''target'', shortName = Some ''t'', description = Some ''Specify_ECMAScript_target_version'',
         optType = TypeMap [(''es5'', ''1''), (''es2015'', ''2'')] \<rparr>,
      \<lparr> name = ''watch'', shortName = Some ''w'', description = Some ''Watch_input_files'',
         optType = TypeName ''boolean'' \<rparr>,
      \<lparr> name = ''strict'', shortName = None, description = None, optType = TypeName ''boolean'' \<rparr>]"

definition watchOption :: commandLineOption where
  "watchOption =
     \<lparr> name = ''watch'', shortName = Some ''w'', description = Some ''Watch_input_files'',
       optType = TypeName ''boolean'' \<rparr>"

definition removeCommentsOption :: commandLineOption where
  "removeCommentsOption =
     \<lparr> name = ''removeComments'', shortName = None, description = Some ''Do_not_emit_comments_to_output'',
       optType = TypeName ''boolean'' \<rparr>"

definition inlineSourceMapOption :: commandLineOption where
  "inlineSourceMapOption =
     \<lparr> name = ''inlineSourceMap'', shortName = None,
       description = Some ''Emit_a_single_file_with_source_maps_instead_of_having_a_separate_file'',
       optType = TypeName ''boolean'' \<rparr>"

text \<open>
  Listeners that delete and that add a reflection while another one is resolved, a
  mapping with ids that are no array indices, a project that refers by name to the
  reflections \<open>A\<close> and \<open>Foo\<close>, and three type converters.
\<close>

definition deletingListeners ::
  "string event \<Rightarrow> (string, string event list) conversionContext \<Rightarrow> (string, string event list) conversionContext" where
  "deletingListeners ev ctx =
     (case ev of
        EVENT_RESOLVE r \<Rightarrow>
          if r = ''first'' then ctx\<lparr>reflections := filter (\<lambda>(k, x). k \<noteq> 2) (reflections ctx)\<rparr> else ctx
      | _ \<Rightarrow> ctx)"

definition addingListeners ::
  "string event \<Rightarrow> (string, string event list) conversionContext \<Rightarrow> (string, string event list) conversionContext" where
  "addingListeners ev ctx =
     (case ev of
        EVENT_RESOLVE r \<Rightarrow>
          if r = ''first'' then ctx\<lparr>reflections := reflections ctx @ [(3, ''late'')]\<rparr> else ctx
      | _ \<Rightarrow> ctx)"

definition resolveContext :: "(string, string event list) conversionContext" where
  "resolveContext = \<lparr> arrays = [[]], visitStack = 0, reflections = [(2, ''second''), (1, ''first'')], other = [] \<rparr>"

definition deletingConverter :: "(string, string event list, string) converter" where
  "deletingConverter = demoConverter\<lparr>listeners := deletingListeners\<rparr>"

definition addingConverter :: "(string, string event list, string) converter" where
  "addingConverter = demoConverter\<lparr>listeners := addingListeners\<rparr>"

definition largeIdContext :: "(string, string event list) conversionContext" where
  "largeIdContext =
     \<lparr> arrays = [[]], visitStack = 0,
       reflections = [(4294967296, ''third''), (1, ''first''), (4294967295, ''second'')],
       other = [] \<rparr>"

definition danglingNames :: "(string, string event list) conversionContext \<Rightarrow> string list" where
  "danglingNames ctx = filter (\<lambda>n. n \<notin> set (map snd (reflections ctx))) [''A'', ''Foo'']"

definition cleanRunResult :: "(string, string event list) converterResult" where
  "cleanRunResult =
     \<lparr> errors = [],
       project = demoResultContext\<lparr>other :=
         [EVENT_BEGIN, EVENT_RESOLVE_BEGIN, EVENT_RESOLVE ''A'', EVENT_RESOLVE_END, EVENT_END]\<rparr>,
       warnings = [danglingWarning [''Foo'']],
       resolved = [(0, ''A'')] \<rparr>"

type_synonym demoComponent =
  "((string, string event list) conversionContext, string) converterTypeComponent"

definition arrayConverter :: demoComponent where
  "arrayConverter =
     \<lparr> component_id = 1, priority = 0,
       supportsNode = Some (\<lambda>ctx nd ty. kind nd = 174),
       convertNodeMember = Some (\<lambda>ctx nd ty. (ctx, Some ''array'')),
       supportsType = None,
       convertTypeMember = None \<rparr>"

definition aliasTypeConverter :: demoComponent where
  "aliasTypeConverter =
     \<lparr> component_id = 2, priority = 100,
       supportsNode = Some (\<lambda>ctx nd ty. kind nd = 174 \<or> kind nd = 169),
       convertNodeMember = Some (\<lambda>ctx nd ty. (ctx, Some ''alias'')),
       supportsType = None,
       convertTypeMember = None \<rparr>"

definition referenceConverter :: demoComponent where
  "referenceConverter =
     \<lparr> component_id = 3, priority = 0,
       supportsNode = Some (\<lambda>ctx nd ty. kind nd = 169),
       convertNodeMember = Some (\<lambda>ctx nd ty. (ctx, Some ''reference'')),
       supportsType = Some (\<lambda>ctx t. True),
       convertTypeMember = Some (\<lambda>ctx t. (ctx, Some ''reference'')) \<rparr>"

definition demoOps :: "((string, string event list) conversionContext, string) registryOp list" where
  "demoOps = [Register arrayConverter, Register referenceConverter, Register aliasTypeConverter]"

definition typedConverter :: "(string, string event list, string) converter" where
  "typedConverter = applyOps demoOps (initialize demoConverter)"

definition arrayTypeNode :: node where
  "arrayTypeNode = \<lparr> node_id = 4, kind = 174, fileName = [] \<rparr>"

definition noTypeAtLocation :: "(string, string event list) conversionContext \<Rightarrow> node \<Rightarrow> tsType option" where
  "noTypeAtLocation ctx nd = None"

definition historyOps :: "((string, string event list) conversionContext, string) registryOp list" where
  "historyOps =
     [Register arrayConverter, Register referenceConverter, Register aliasTypeConverter,
      Unregister arrayConverter, Register arrayConverter]"

section \<open>The diagnostic classifier\<close>

text \<open>
  C2. The classifier filters the four categories, in the order configuration options,
  syntactic, global, semantic, to the diagnostics relevant to the included files and
  returns the first filtered category that is not empty and nothing of a later one; it
  returns the empty list when all four are empty after filtering, and always when
  \<open>ignoreCompilerErrors\<close> is set.
\<close>

theorem getCompilerErrors_first_nonempty_category:
  "getCompilerErrors app prog included =
     classifier_spec (ignoreCompilerErrors app) prog included"
  by (simp add: getCompilerErrors_def classifier_spec_def diagnosticCategories_def Let_def)

theorem getCompilerErrors_first_nonempty_category_witness:
  "map (filter (isRelevantError [fileNode])) (diagnosticCategories failingProgram)
     = [[], [filelessDiagnostic], [], [semanticDiagnostic]]
   \<and> getCompilerErrors demoApplication failingProgram [fileNode] = [filelessDiagnostic]
   \<and> getCompilerErrors suppressingApplication failingProgram [fileNode] = []
   \<and> getCompilerErrors demoApplication cleanProgram [fileNode] = []"
proof -
  have c: "map (filter (isRelevantError [fileNode])) (diagnosticCategories failingProgram)
     = [[], [filelessDiagnostic], [], [semanticDiagnostic]]"
    by (simp add: diagnosticCategories_def failingProgram_def isRelevantError_def
          libraryDiagnostic_def filelessDiagnostic_def semanticDiagnostic_def fileNode_def excludedFile_def)
  have d: "map (filter (isRelevantError [fileNode])) (diagnosticCategories cleanProgram) = [[], [], [], []]"
    by (simp add: diagnosticCategories_def cleanProgram_def isRelevantError_def
          libraryDiagnostic_def fileNode_def excludedFile_def)
  have f: "\<not> ignoreCompilerErrors demoApplication" "ignoreCompilerErrors suppressingApplication"
    by (simp_all add: demoApplication_def suppressingApplication_def)
  show ?thesis
    using c d f
      getCompilerErrors_first_nonempty_category[of demoApplication failingProgram "[fileNode]"]
      getCompilerErrors_first_nonempty_category[of suppressingApplication failingProgram "[fileNode]"]
      getCompilerErrors_first_nonempty_category[of demoApplication cleanProgram "[fileNode]"]
    by (simp add: classifier_spec_def)
qed

text \<open>
  C10, as the code has it. A diagnostic without a source file is relevant to every
  set of included files, so the filter of no category removes it; when it belongs to
  category \<open>i\<close>, every earlier category is empty after filtering and
  \<open>ignoreCompilerErrors\<close> is not set, it is among the diagnostics returned.
\<close>

theorem fileless_diagnostic_is_returned:
  assumes "sourceFile d = None"
  shows "isRelevantError included d
     \<and> (\<forall>i<4. \<not> ignoreCompilerErrors app \<and> d \<in> set (diagnosticCategories prog ! i)
            \<and> (\<forall>j<i. filter (isRelevantError included) (diagnosticCategories prog ! j) = [])
          \<longrightarrow> d \<in> set (getCompilerErrors app prog included))"
proof
  show rel: "isRelevantError included d" using assms by (simp add: isRelevantError_def)
  have keep: "\<And>cat. d \<in> set cat \<Longrightarrow> filter (isRelevantError included) cat \<noteq> []"
    using rel by (auto simp: filter_empty_conv)
  show "\<forall>i<4. \<not> ignoreCompilerErrors app \<and> d \<in> set (diagnosticCategories prog ! i)
            \<and> (\<forall>j<i. filter (isRelevantError included) (diagnosticCategories prog ! j) = [])
          \<longrightarrow> d \<in> set (getCompilerErrors app prog included)"
  proof (intro allI impI)
    fix i :: nat
    assume "i < 4"
      and h: "\<not> ignoreCompilerErrors app \<and> d \<in> set (diagnosticCategories prog ! i)
            \<and> (\<forall>j<i. filter (isRelevantError included) (diagnosticCategories prog ! j) = [])"
    then consider "i = 0" | "i = 1" | "i = 2" | "i = 3" by linarith
    then show "d \<in> set (getCompilerErrors app prog included)"
    proof cases
      case 1
      then show ?thesis using h rel keep[of "getOptionsDiagnostics prog"]
        by (simp add: getCompilerErrors_def diagnosticCategories_def Let_def)
    next
      case 2
      then have "filter (isRelevantError included) (diagnosticCategories prog ! 0) = []" using h by simp
      then show ?thesis using 2 h rel keep[of "getSyntacticDiagnostics prog"]
        by (simp add: getCompilerErrors_def diagnosticCategories_def Let_def)
    next
      case 3
      then have "filter (isRelevantError included) (diagnosticCategories prog ! 0) = []"
        "filter (isRelevantError included) (diagnosticCategories prog ! 1) = []" using h by simp_all
      then show ?thesis using 3 h rel keep[of "getGlobalDiagnostics prog"]
        by (simp add: getCompilerErrors_def diagnosticCategories_def Let_def)
    next
      case 4
      then have "filter (isRelevantError included) (diagnosticCategories prog ! 0) = []"
        "filter (isRelevantError included) (diagnosticCategories prog ! 1) = []"
        "filter (isRelevantError included) (diagnosticCategories prog ! 2) = []" using h by simp_all
      then show ?thesis using 4 h rel keep[of "getSemanticDiagnostics prog"]
        by (simp add: getCompilerErrors_def diagnosticCategories_def Let_def)
    qed
  qed
qed

lemma demo_included: "includedSourceFiles demoApplication failingProgram = [fileNode]"
  by (simp add: includedSourceFiles_def isExcluded_def demoApplication_def failingProgram_def
        fileNode_def excludedFile_def)

lemma demo_errors: "getCompilerErrors demoApplication failingProgram [fileNode] = [filelessDiagnostic]"
  by (simp add: getCompilerErrors_def isRelevantError_def demoApplication_def failingProgram_def
        fileNode_def excludedFile_def libraryDiagnostic_def filelessDiagnostic_def)

theorem fileless_diagnostic_is_returned_witness:
  "sourceFile filelessDiagnostic = None
   \<and> isRelevantError [fileNode] filelessDiagnostic
   \<and> \<not> ignoreCompilerErrors demoApplication
   \<and> filelessDiagnostic \<in> set (diagnosticCategories failingProgram ! 1)
   \<and> filter (isRelevantError [fileNode]) (diagnosticCategories failingProgram ! 0) = []
   \<and> filelessDiagnostic \<in> set (getCompilerErrors demoApplication failingProgram [fileNode])"
proof -
  have f: "sourceFile filelessDiagnostic = None" by (simp add: filelessDiagnostic_def)
  have h: "\<not> ignoreCompilerErrors demoApplication
     \<and> filelessDiagnostic \<in> set (diagnosticCategories failingProgram ! 1)
     \<and> filter (isRelevantError [fileNode]) (diagnosticCategories failingProgram ! 0) = []"
    by (simp add: demoApplication_def diagnosticCategories_def failingProgram_def isRelevantError_def
          libraryDiagnostic_def fileNode_def excludedFile_def)
  have "filelessDiagnostic \<in> set (getCompilerErrors demoApplication failingProgram [fileNode])"
    using fileless_diagnostic_is_returned[OF f, of "[fileNode]" demoApplication failingProgram,
        THEN conjunct2, THEN spec[where x = "1::nat"]] h
    by simp
  moreover have "isRelevantError [fileNode] filelessDiagnostic"
    using fileless_diagnostic_is_returned[OF f, of "[fileNode]" demoApplication failingProgram] by simp
  ultimately show ?thesis using f h by simp
qed

text \<open>
  C10 as stated fails where \<open>ignoreCompilerErrors\<close> is set: the only diagnostic of
  this program has no source file and stands in the first category, and nothing is
  returned.
\<close>

theorem fileless_diagnostic_suppressed:
  "sourceFile filelessDiagnostic = None
   \<and> filelessDiagnostic \<in> set (diagnosticCategories misconfiguredProgram ! 0)
   \<and> isRelevantError [fileNode] filelessDiagnostic
   \<and> filelessDiagnostic \<notin> set (getCompilerErrors suppressingApplication misconfiguredProgram [fileNode])"
  by (simp add: filelessDiagnostic_def diagnosticCategories_def misconfiguredProgram_def
        isRelevantError_def getCompilerErrors_def suppressingApplication_def)

section \<open>The option deny-list\<close>

lemma createTSDeclaration_name: "declName (createTSDeclaration opt) = name opt"
  by (simp add: createTSDeclaration_def Let_def)

text \<open>
  C9, as the code has it. \<open>addTSOptions\<close> contributes one declaration, under the
  option's name and in the order of the engine's table, for each option declaration
  whose name is not in the deny-list, and none under a name of the deny-list. The
  deny-list is the fifteen names of \<open>IGNORED_OPTIONS\<close>, \<open>watch\<close> and
  \<open>removeComments\<close> among them.
\<close>

theorem addTSOptions_deny_list:
  "map declName (addTSOptions decls) = filter (\<lambda>n. n \<notin> IGNORED) (map name decls)
   \<and> filter (\<lambda>x. declName x \<in> IGNORED) (addTSOptions decls) = []
   \<and> length (addTSOptions decls) = length (filter (\<lambda>decl. name decl \<notin> IGNORED) decls)
   \<and> IGNORED = {''out'', ''version'', ''help'', ''emitDeclarationOnly'', ''watch'', ''declaration'',
        ''declarationDir'', ''declarationMap'', ''mapRoot'', ''sourceMap'', ''inlineSources'',
        ''removeComments'', ''incremental'', ''tsBuildInfoFile'', ''configFilePath''}"
proof (intro conjI)
  show "map declName (addTSOptions decls) = filter (\<lambda>n. n \<notin> IGNORED) (map name decls)"
    by (induction decls) (simp_all add: addTSOptions_def createTSDeclaration_name)
  then show "filter (\<lambda>x. declName x \<in> IGNORED) (addTSOptions decls) = []"
    by (induction decls) (simp_all add: addTSOptions_def createTSDeclaration_name)
  show "length (addTSOptions decls) = length (filter (\<lambda>decl. name decl \<notin> IGNORED) decls)"
    by (simp add: addTSOptions_def)
  show "IGNORED = {''out'', ''version'', ''help'', ''emitDeclarationOnly'', ''watch'', ''declaration'',
        ''declarationDir'', ''declarationMap'', ''mapRoot'', ''sourceMap'', ''inlineSources'',
        ''removeComments'', ''incremental'', ''tsBuildInfoFile'', ''configFilePath''}"
    by (simp add: IGNORED_def IGNORED_OPTIONS_def)
qed

theorem addTSOptions_deny_list_witness:
  "map name engineOptions = [''out'', ''target'', ''watch'', ''strict'']
   \<and> addTSOptions engineOptions =
       [\<lparr> declName = ''target'', short = Some ''t'', helpText = ''Specify_ECMAScript_target_version'',
           scope = ParameterScope_TypeScript, paramType = ParameterType_Map,
           mapOf = Some (TypeMap [(''es5'', ''1''), (''es2015'', ''2'')]) \<rparr>,
        \<lparr> declName = ''strict'', short = None, helpText = [],
           scope = ParameterScope_TypeScript, paramType = ParameterType_Boolean, mapOf = None \<rparr>]
   \<and> map declName (addTSOptions engineOptions) = [''target'', ''strict'']"
proof -
  have "map declName (addTSOptions engineOptions) = filter (\<lambda>n. n \<notin> IGNORED) (map name engineOptions)"
    using addTSOptions_deny_list[of engineOptions] by blast
  moreover have "filter (\<lambda>n. n \<notin> IGNORED) (map name engineOptions) = [''target'', ''strict'']"
    by (simp add: engineOptions_def IGNORED_def IGNORED_OPTIONS_def)
  ultimately have "map declName (addTSOptions engineOptions) = [''target'', ''strict'']"
    by simp
  moreover have "addTSOptions engineOptions =
       [\<lparr> declName = ''target'', short = Some ''t'', helpText = ''Specify_ECMAScript_target_version'',
           scope = ParameterScope_TypeScript, paramType = ParameterType_Map,
           mapOf = Some (TypeMap [(''es5'', ''1''), (''es2015'', ''2'')]) \<rparr>,
        \<lparr> declName = ''strict'', short = None, helpText = [],
           scope = ParameterScope_TypeScript, paramType = ParameterType_Boolean, mapOf = None \<rparr>]"
    by (simp add: addTSOptions_def engineOptions_def IGNORED_def IGNORED_OPTIONS_def
          createTSDeclaration_def Let_def)
  ultimately show ?thesis by (simp add: engineOptions_def)
qed

text \<open>
  C9 as stated fails: \<open>watch\<close> and \<open>removeComments\<close> are none of the names and
  kinds the claim lists, and no declaration is contributed for them; and
  \<open>inlineSourceMap\<close>, a source-map flag, gets its declaration.
\<close>

theorem addTSOptions_denies_watch:
  "name watchOption \<notin> set denyList_claimed
   \<and> name removeCommentsOption \<notin> set denyList_claimed
   \<and> addTSOptions [watchOption, removeCommentsOption] = []
   \<and> name inlineSourceMapOption \<in> set denyList_claimed
   \<and> map declName (addTSOptions [inlineSourceMapOption]) = [''inlineSourceMap'']"
  by (simp add: watchOption_def removeCommentsOption_def inlineSourceMapOption_def denyList_claimed_def
        declarationEmissionFlags_def sourceMapFlags_def incrementalBuildFlags_def
        addTSOptions_def IGNORED_def IGNORED_OPTIONS_def createTSDeclaration_def Let_def)

section \<open>Cycle-safe node conversion\<close>

lemma prefix_nth: "prefix xs ys \<Longrightarrow> i < length xs \<Longrightarrow> ys ! i = xs ! i"
  by (auto simp: prefix_def nth_append)

lemma card_unvisited_less:
  assumes "finite N" "nd \<in> N" "nd \<notin> set vs"
  shows "card (N - set (vs @ [nd])) < card (N - set vs)"
proof -
  have "N - set (vs @ [nd]) \<subset> N - set vs" using assms by auto
  then show ?thesis using assms(1) by (simp add: psubset_card_mono)
qed

lemma convertNode_guard:
  "array_includes (arrays ctx) (visitStack ctx) nd \<Longrightarrow> convertNode (Suc fuel) this ctx nd = Some (ctx, None)"
  by simp

lemma convertNode_restores:
  "convertNode fuel this ctx nd = Some (ctx', r) \<Longrightarrow> visitStack ctx' = visitStack ctx"
proof (cases fuel)
  case 0
  then show "convertNode fuel this ctx nd = Some (ctx', r) \<Longrightarrow> visitStack ctx' = visitStack ctx" by simp
next
  case (Suc k)
  assume "convertNode fuel this ctx nd = Some (ctx', r)"
  then show "visitStack ctx' = visitStack ctx"
    unfolding Suc
    by (auto simp: Let_def array_slice_def split: if_splits option.splits)
qed

lemma convertNode_dispatch:
  assumes "\<not> array_includes (arrays ctx) (visitStack ctx) nd"
  shows "convertNode (Suc fuel) this ctx nd =
        (let ctx2 = ctx\<lparr>visitStack := length (arrays ctx), arrays := arrays ctx @ [visited ctx @ [nd]]\<rparr> in
         case nodeConverters this (kind nd) of
             None \<Rightarrow> Some (ctx2\<lparr>visitStack := visitStack ctx\<rparr>, None)
           | Some c \<Rightarrow>
               (case c (convertNode fuel this) ctx2 nd of
                  None \<Rightarrow> None
                | Some (ctx3, result) \<Rightarrow> Some (ctx3\<lparr>visitStack := visitStack ctx\<rparr>, result)))"
  using assms
  by (simp add: array_includes_def visited_def array_slice_def array_push_def Let_def
          cong: option.case_cong)

lemma convertNode_returns:
  fixes this :: "('r, 'x, 'ty) converter"
  assumes fin: "finite N" and wb: "wellBehavedConverters N this"
  shows "nd \<in> N \<Longrightarrow> validContext ctx \<Longrightarrow> card (N - set (visited ctx)) < fuel \<Longrightarrow>
         \<exists>ctx' r. convertNode fuel this ctx nd = Some (ctx', r)
            \<and> prefix (arrays ctx) (arrays ctx') \<and> visitStack ctx' = visitStack ctx"
proof (induction fuel arbitrary: ctx nd)
  case 0
  then show ?case by simp
next
  case (Suc fuel)
  show ?case
  proof (cases "nd \<in> set (visited ctx)")
    case True
    then show ?thesis by (simp add: array_includes_def visited_def)
  next
    case False
    define ctx2 where "ctx2 = ctx\<lparr>visitStack := length (arrays ctx), arrays := arrays ctx @ [visited ctx @ [nd]]\<rparr>"
    have valid: "visitStack ctx < length (arrays ctx)" using Suc.prems(2) by (simp add: validContext_def)
    have step: "convertNode (Suc fuel) this ctx nd =
        (case nodeConverters this (kind nd) of
             None \<Rightarrow> Some (ctx2\<lparr>visitStack := visitStack ctx\<rparr>, None)
           | Some c \<Rightarrow>
               (case c (convertNode fuel this) ctx2 nd of
                  None \<Rightarrow> None
                | Some (ctx3, result) \<Rightarrow> Some (ctx3\<lparr>visitStack := visitStack ctx\<rparr>, result)))"
      using False
      by (simp add: array_includes_def visited_def array_slice_def array_push_def ctx2_def Let_def
          cong: option.case_cong)
    have pre2: "prefix (arrays ctx) (arrays ctx2)" by (simp add: ctx2_def)
    show ?thesis
    proof (cases "nodeConverters this (kind nd)")
      case None
      then show ?thesis using step pre2 by simp
    next
      case (Some c)
      have wbc: "wellBehaved N c" using wb Some by (auto simp: wellBehavedConverters_def)
      have callbacks: "\<forall>ctx' m. m \<in> N \<and> prefix (arrays ctx2) (arrays ctx') \<and> visitStack ctx' = visitStack ctx2
           \<longrightarrow> (\<exists>ctx'' r. convertNode fuel this ctx' m = Some (ctx'', r) \<and> prefix (arrays ctx') (arrays ctx'')
                  \<and> visitStack ctx'' = visitStack ctx')"
      proof (intro allI impI)
        fix ctx' :: "('r, 'x) conversionContext" and m
        assume a: "m \<in> N \<and> prefix (arrays ctx2) (arrays ctx') \<and> visitStack ctx' = visitStack ctx2"
        have len: "length (arrays ctx2) \<le> length (arrays ctx')" using a by (auto simp: prefix_def)
        have v: "validContext ctx'" using a len by (simp add: validContext_def ctx2_def)
        have "visited ctx' = arrays ctx2 ! length (arrays ctx)"
          using a prefix_nth[of "arrays ctx2" "arrays ctx'" "length (arrays ctx)"]
          by (simp add: visited_def ctx2_def)
        then have vis: "visited ctx' = visited ctx @ [nd]" by (simp add: ctx2_def)
        have "card (N - set (visited ctx')) < card (N - set (visited ctx))"
          unfolding vis using card_unvisited_less[OF fin Suc.prems(1) False] .
        then have "card (N - set (visited ctx')) < fuel" using Suc.prems(3) by simp
        then show "\<exists>ctx'' r. convertNode fuel this ctx' m = Some (ctx'', r) \<and> prefix (arrays ctx') (arrays ctx'')
                  \<and> visitStack ctx'' = visitStack ctx'"
          using Suc.IH[of m ctx'] a v by simp
      qed
      from wbc[unfolded wellBehaved_def, THEN spec, THEN spec, THEN spec, THEN mp, OF Suc.prems(1), THEN mp, OF callbacks]
      obtain ctx3 r where c3: "c (convertNode fuel this) ctx2 nd = Some (ctx3, r)"
        and pre3: "prefix (arrays ctx2) (arrays ctx3)" by blast
      have "prefix (arrays ctx) (arrays ctx3)" using pre2 pre3 by (rule prefix_order.trans)
      then show ?thesis using step Some c3 by simp
    qed
  qed
qed

lemma wellBehaved_aliasConverter: "wellBehaved demoNodes aliasConverter"
  unfolding wellBehaved_def
proof (intro allI impI)
  fix self :: "(string, string event list) convertNodeMethod"
    and ctx :: "(string, string event list) conversionContext" and nd
  assume nd: "nd \<in> demoNodes"
    and cb: "\<forall>ctx' m. m \<in> demoNodes \<and> prefix (arrays ctx) (arrays ctx') \<and> visitStack ctx' = visitStack ctx
           \<longrightarrow> (\<exists>ctx'' r. self ctx' m = Some (ctx'', r) \<and> prefix (arrays ctx') (arrays ctx'')
                  \<and> visitStack ctx'' = visitStack ctx')"
  from cb nd obtain ctx'' r where "self ctx nd = Some (ctx'', r)" "prefix (arrays ctx) (arrays ctx'')"
    by blast
  then show "\<exists>ctx'' r. aliasConverter self ctx nd = Some (ctx'', r) \<and> prefix (arrays ctx) (arrays ctx'')"
    by (simp add: aliasConverter_def)
qed

lemma wellBehaved_sourceFileConverter: "wellBehaved demoNodes sourceFileConverter"
  unfolding wellBehaved_def
proof (intro allI impI)
  fix self :: "(string, string event list) convertNodeMethod"
    and ctx :: "(string, string event list) conversionContext" and nd
  assume cb: "\<forall>ctx' m. m \<in> demoNodes \<and> prefix (arrays ctx) (arrays ctx') \<and> visitStack ctx' = visitStack ctx
           \<longrightarrow> (\<exists>ctx'' r. self ctx' m = Some (ctx'', r) \<and> prefix (arrays ctx') (arrays ctx'')
                  \<and> visitStack ctx'' = visitStack ctx')"
  have "aliasNode \<in> demoNodes" by (simp add: demoNodes_def)
  with cb obtain ctx'' r where "self ctx aliasNode = Some (ctx'', r)" "prefix (arrays ctx) (arrays ctx'')"
    by blast
  then show "\<exists>ctx'' r. sourceFileConverter self ctx nd = Some (ctx'', r) \<and> prefix (arrays ctx) (arrays ctx'')"
    by (simp add: sourceFileConverter_def)
qed

lemma wellBehaved_demoConverter: "wellBehavedConverters demoNodes demoConverter"
  by (auto simp: wellBehavedConverters_def demoConverter_def
        wellBehaved_aliasConverter wellBehaved_sourceFileConverter split: if_splits)

lemma demo_run:
  "convertNode 3 demoConverter demoContext fileNode = Some (demoResultContext, None)"
  by (simp add: numeral_3_eq_3 demoConverter_def demoContext_def demoResultContext_def fileNode_def aliasNode_def
      sourceFileConverter_def aliasConverter_def
      array_includes_def array_slice_def array_push_def Let_def)

lemma demo_hyps:
  "finite demoNodes \<and> wellBehavedConverters demoNodes demoConverter \<and> fileNode \<in> demoNodes
      \<and> validContext demoContext \<and> card (demoNodes - set (visited demoContext)) < 3"
proof -
  have "finite demoNodes \<and> fileNode \<in> demoNodes \<and> validContext demoContext
        \<and> card (demoNodes - set (visited demoContext)) < 3"
    by (simp add: demoNodes_def validContext_def visited_def demoContext_def fileNode_def aliasNode_def)
  then show ?thesis using wellBehaved_demoConverter by simp
qed

text \<open>
  C3. A node that is already on the context's visit stack is not dispatched:
  \<open>convertNode\<close> returns no reflection and the context as it was, whatever converters
  are registered (first part). So a node structure that refers to itself does not
  recurse without bound: when the converters are well behaved for the finitely many
  nodes \<open>N\<close> of the program, a call nests at most as deep as there are nodes of \<open>N\<close>
  not yet on the stack, and returns (second part).
\<close>

theorem convertNode_cycle_guard:
  fixes this :: "('r, 'x, 'ty) converter"
  shows "(nd \<in> set (visited ctx) \<longrightarrow> convertNode (Suc fuel) this ctx nd = Some (ctx, None))
       \<and> (finite N \<and> wellBehavedConverters N this \<and> nd \<in> N \<and> validContext ctx
            \<and> card (N - set (visited ctx)) < fuel'
          \<longrightarrow> (\<exists>ctx' r. convertNode fuel' this ctx nd = Some (ctx', r)))"
proof (intro conjI impI)
  assume "nd \<in> set (visited ctx)"
  then show "convertNode (Suc fuel) this ctx nd = Some (ctx, None)"
    by (simp add: convertNode_guard array_includes_def visited_def)
next
  assume a: "finite N \<and> wellBehavedConverters N this \<and> nd \<in> N \<and> validContext ctx
            \<and> card (N - set (visited ctx)) < fuel'"
  then show "\<exists>ctx' r. convertNode fuel' this ctx nd = Some (ctx', r)"
    using convertNode_returns[of N this nd ctx fuel'] by blast
qed

theorem convertNode_cycle_guard_witness:
  "aliasNode \<in> set (visited (demoContext\<lparr>arrays := [[aliasNode]]\<rparr>))
   \<and> convertNode (Suc 0) demoConverter (demoContext\<lparr>arrays := [[aliasNode]]\<rparr>) aliasNode
        = Some (demoContext\<lparr>arrays := [[aliasNode]]\<rparr>, None)
   \<and> finite demoNodes \<and> wellBehavedConverters demoNodes demoConverter \<and> fileNode \<in> demoNodes
   \<and> validContext demoContext \<and> card (demoNodes - set (visited demoContext)) < 3
   \<and> (\<exists>ctx' r. convertNode 3 demoConverter demoContext fileNode = Some (ctx', r))"
proof -
  have v: "aliasNode \<in> set (visited (demoContext\<lparr>arrays := [[aliasNode]]\<rparr>))"
    by (simp add: visited_def demoContext_def)
  have h: "finite demoNodes \<and> wellBehavedConverters demoNodes demoConverter \<and> fileNode \<in> demoNodes
      \<and> validContext demoContext \<and> card (demoNodes - set (visited demoContext)) < 3"
  proof -
    have "finite demoNodes \<and> fileNode \<in> demoNodes \<and> validContext demoContext
        \<and> card (demoNodes - set (visited demoContext)) < 3"
      by (simp add: demoNodes_def validContext_def visited_def demoContext_def fileNode_def aliasNode_def)
    then show ?thesis using wellBehaved_demoConverter by simp
  qed
  show ?thesis
    using v h
      convertNode_cycle_guard[where nd = aliasNode and ctx = "demoContext\<lparr>arrays := [[aliasNode]]\<rparr>"
        and fuel = 0 and this = demoConverter, THEN conjunct1]
      convertNode_cycle_guard[where nd = fileNode and ctx = demoContext and N = demoNodes
        and fuel' = 3 and this = demoConverter, THEN conjunct2]
    by blast
qed

text \<open>
  C6. \<open>convertNode\<close> does not write to the array it finds in \<open>context.visitStack\<close>.
  First part: whatever the dispatched converter does, the reference the context holds
  when \<open>convertNode\<close> returns is the one it held before. Second part: the converter
  runs in the context \<open>ctx2\<close>, whose \<open>visitStack\<close> is a newly allocated array
  holding the old contents and the node, while every array that existed, the old
  stack among them, is as it was. Third part: with well-behaved converters the call
  returns, all arrays that existed before are unchanged afterwards, the context's
  stack has its old contents, and a call made next sees the node as visited exactly
  when it was before.
\<close>

theorem convertNode_preserves_visit_stack:
  fixes this :: "('r, 'x, 'ty) converter"
  shows
  "(convertNode fuel this ctx nd = Some (ctx', r) \<longrightarrow> visitStack ctx' = visitStack ctx)
   \<and> (validContext ctx \<and> nd \<notin> set (visited ctx) \<longrightarrow>
        (let ctx2 = ctx\<lparr>visitStack := length (arrays ctx), arrays := arrays ctx @ [visited ctx @ [nd]]\<rparr> in
           visitStack ctx2 \<noteq> visitStack ctx \<and> visited ctx2 = visited ctx @ [nd]
           \<and> arrays ctx2 ! visitStack ctx = visited ctx \<and> prefix (arrays ctx) (arrays ctx2)
           \<and> convertNode (Suc fuel) this ctx nd =
               (case nodeConverters this (kind nd) of
                  None \<Rightarrow> Some (ctx2\<lparr>visitStack := visitStack ctx\<rparr>, None)
                | Some c \<Rightarrow>
                    (case c (convertNode fuel this) ctx2 nd of
                       None \<Rightarrow> None
                     | Some (ctx3, result) \<Rightarrow> Some (ctx3\<lparr>visitStack := visitStack ctx\<rparr>, result)))))
   \<and> (finite N \<and> wellBehavedConverters N this \<and> nd \<in> N \<and> validContext ctx
        \<and> card (N - set (visited ctx)) < fuel \<longrightarrow>
        (\<exists>ctx'' r'. convertNode fuel this ctx nd = Some (ctx'', r')
           \<and> visitStack ctx'' = visitStack ctx \<and> prefix (arrays ctx) (arrays ctx'')
           \<and> visited ctx'' = visited ctx
           \<and> array_includes (arrays ctx'') (visitStack ctx'') nd
               = array_includes (arrays ctx) (visitStack ctx) nd))"
proof (intro conjI impI)
  assume "convertNode fuel this ctx nd = Some (ctx', r)"
  then show "visitStack ctx' = visitStack ctx" by (rule convertNode_restores)
next
  assume a: "validContext ctx \<and> nd \<notin> set (visited ctx)"
  then have "\<not> array_includes (arrays ctx) (visitStack ctx) nd"
    by (simp add: array_includes_def visited_def)
  from convertNode_dispatch[OF this, of fuel this] a
  show "let ctx2 = ctx\<lparr>visitStack := length (arrays ctx), arrays := arrays ctx @ [visited ctx @ [nd]]\<rparr> in
           visitStack ctx2 \<noteq> visitStack ctx \<and> visited ctx2 = visited ctx @ [nd]
           \<and> arrays ctx2 ! visitStack ctx = visited ctx \<and> prefix (arrays ctx) (arrays ctx2)
           \<and> convertNode (Suc fuel) this ctx nd =
               (case nodeConverters this (kind nd) of
                  None \<Rightarrow> Some (ctx2\<lparr>visitStack := visitStack ctx\<rparr>, None)
                | Some c \<Rightarrow>
                    (case c (convertNode fuel this) ctx2 nd of
                       None \<Rightarrow> None
                     | Some (ctx3, result) \<Rightarrow> Some (ctx3\<lparr>visitStack := visitStack ctx\<rparr>, result)))"
    by (simp add: Let_def validContext_def visited_def nth_append)
next
  assume a: "finite N \<and> wellBehavedConverters N this \<and> nd \<in> N \<and> validContext ctx
        \<and> card (N - set (visited ctx)) < fuel"
  then obtain ctx'' r' where res: "convertNode fuel this ctx nd = Some (ctx'', r')"
    and pre: "prefix (arrays ctx) (arrays ctx'')" and vs: "visitStack ctx'' = visitStack ctx"
    using convertNode_returns[of N this nd ctx fuel] by blast
  have "visitStack ctx < length (arrays ctx)" using a by (simp add: validContext_def)
  then have same: "visited ctx'' = visited ctx"
    using prefix_nth[OF pre] vs by (simp add: visited_def)
  then have "array_includes (arrays ctx'') (visitStack ctx'') nd
               = array_includes (arrays ctx) (visitStack ctx) nd"
    by (simp add: array_includes_def visited_def)
  with res pre vs same
  show "\<exists>ctx'' r'. convertNode fuel this ctx nd = Some (ctx'', r')
           \<and> visitStack ctx'' = visitStack ctx \<and> prefix (arrays ctx) (arrays ctx'')
           \<and> visited ctx'' = visited ctx
           \<and> array_includes (arrays ctx'') (visitStack ctx'') nd
               = array_includes (arrays ctx) (visitStack ctx) nd"
    by blast
qed

theorem convertNode_preserves_visit_stack_witness:
  "validContext demoContext \<and> fileNode \<notin> set (visited demoContext)
   \<and> finite demoNodes \<and> wellBehavedConverters demoNodes demoConverter \<and> fileNode \<in> demoNodes
   \<and> card (demoNodes - set (visited demoContext)) < 3
   \<and> convertNode 3 demoConverter demoContext fileNode = Some (demoResultContext, None)
   \<and> visitStack demoResultContext = visitStack demoContext
   \<and> visited demoResultContext = visited demoContext
   \<and> \<not> array_includes (arrays demoResultContext) (visitStack demoResultContext) fileNode"
proof -
  have nv: "fileNode \<notin> set (visited demoContext)" by (simp add: visited_def demoContext_def)
  from convertNode_preserves_visit_stack[where fuel = 3 and this = demoConverter and ctx = demoContext
      and nd = fileNode and N = demoNodes, THEN conjunct2, THEN conjunct2] demo_hyps
  obtain ctx'' r' where "convertNode 3 demoConverter demoContext fileNode = Some (ctx'', r')"
    and "visitStack ctx'' = visitStack demoContext" and "visited ctx'' = visited demoContext"
    and "array_includes (arrays ctx'') (visitStack ctx'') fileNode
               = array_includes (arrays demoContext) (visitStack demoContext) fileNode"
    by blast
  then show ?thesis using demo_run demo_hyps nv by (simp add: array_includes_def visited_def)
qed

section \<open>The compile phase\<close>

text \<open>
  C5. When the classifier returns a list that is not empty, \<open>compile\<close> returns
  exactly that list, as a value. It does so with any fuel, also none, with any
  converters, and it leaves the context as it was: \<open>convertNode\<close> is called for no
  source file.
\<close>

theorem compile_returns_diagnostics:
  "getCompilerErrors app prog (includedSourceFiles app prog) \<noteq> [] \<Longrightarrow>
   compile fuel this app prog ctx = Some (ctx, getCompilerErrors app prog (includedSourceFiles app prog))"
  by (simp add: compile_def Let_def)

theorem compile_returns_diagnostics_witness:
  "getCompilerErrors demoApplication failingProgram (includedSourceFiles demoApplication failingProgram) \<noteq> []
   \<and> compile 0 demoConverter demoApplication failingProgram demoContext
       = Some (demoContext, [filelessDiagnostic])"
  using compile_returns_diagnostics[of demoApplication failingProgram 0 demoConverter demoContext]
  by (simp add: demo_included demo_errors)

section \<open>The resolve pass\<close>

lemma set_insertionOrder: "set (insertionOrder rs) = fst ` set rs"
  by (simp add: insertionOrder_def)

lemma distinct_insertionOrder: "distinct (insertionOrder rs)"
  by (simp add: insertionOrder_def)

lemma set_ownKeys: "set (ownKeys rs) = fst ` set rs"
  by (auto simp: ownKeys_def Let_def set_insertionOrder)

lemma distinct_ownKeys: "distinct (ownKeys rs)"
  by (auto simp: ownKeys_def Let_def distinct_insertionOrder)

lemma ownKeys_array_indices:
  "filter isArrayIndex (ownKeys rs) = sort (filter isArrayIndex (insertionOrder rs))"
proof -
  have "filter isArrayIndex (sort (filter isArrayIndex (insertionOrder rs)))
          = sort (filter isArrayIndex (insertionOrder rs))"
    by (rule filter_True) simp
  then show ?thesis by (simp add: ownKeys_def Let_def)
qed

lemma ownKeys_other_keys:
  "filter (\<lambda>k. \<not> isArrayIndex k) (ownKeys rs) = filter (\<lambda>k. \<not> isArrayIndex k) (insertionOrder rs)"
proof -
  have "filter (\<lambda>k. \<not> isArrayIndex k) (sort (filter isArrayIndex (insertionOrder rs))) = []"
    by (simp add: filter_empty_conv)
  then show ?thesis by (simp add: ownKeys_def Let_def)
qed

lemma ownKeys_split:
  "ownKeys rs = filter isArrayIndex (ownKeys rs) @ filter (\<lambda>k. \<not> isArrayIndex k) (ownKeys rs)"
  unfolding ownKeys_array_indices ownKeys_other_keys by (simp add: ownKeys_def Let_def)

lemma ownKeys_array_indices_ascending: "sorted_wrt (<) (filter isArrayIndex (ownKeys rs))"
  unfolding ownKeys_array_indices by (simp add: strict_sorted_iff distinct_insertionOrder)

lemma fst_resolveLoop_Cons:
  "fst (resolveLoop this (k # ks) ctx) =
     (case map_of (reflections ctx) k of
        None \<Rightarrow> fst (resolveLoop this ks ctx)
      | Some r \<Rightarrow> (k, r) # fst (resolveLoop this ks (trigger this (EVENT_RESOLVE r) ctx)))"
  by (simp add: Let_def split: option.split prod.split)

text \<open>The events of the loop: one for each key that the mapping holds at its turn.\<close>

lemma resolveLoop_turns:
  "fst (resolveLoop this ks ctx) =
     concat (map (\<lambda>(k, c). case map_of (reflections c) k of None \<Rightarrow> [] | Some r \<Rightarrow> [(k, r)])
               (zip ks (turnContexts this ks ctx)))"
proof (induction ks arbitrary: ctx)
  case Nil
  then show ?case by simp
next
  case (Cons k ks)
  show ?case
  proof (cases "map_of (reflections ctx) k")
    case None
    then show ?thesis using Cons.IH[of ctx]
      by (simp add: fst_resolveLoop_Cons del: resolveLoop.simps)
  next
    case (Some r)
    then show ?thesis using Cons.IH[of "trigger this (EVENT_RESOLVE r) ctx"]
      by (simp add: fst_resolveLoop_Cons del: resolveLoop.simps)
  qed
qed

lemma length_turnContexts: "length (turnContexts this ks ctx) = length ks"
  by (induction ks arbitrary: ctx) simp_all

lemma resolveLoop_ids:
  "set (map fst (fst (resolveLoop this ks ctx))) \<subseteq> set ks"
proof (induction ks arbitrary: ctx)
  case Nil
  then show ?case by simp
next
  case (Cons k ks)
  show ?case
  proof (cases "map_of (reflections ctx) k")
    case None
    then show ?thesis using Cons.IH[of ctx]
      by (auto simp: fst_resolveLoop_Cons simp del: resolveLoop.simps)
  next
    case (Some r)
    then show ?thesis
      using Cons.IH[of "trigger this (EVENT_RESOLVE r) ctx"]
      by (auto simp: fst_resolveLoop_Cons simp del: resolveLoop.simps)
  qed
qed

lemma resolveLoop_present_at_turn:
  "distinct ks \<Longrightarrow> i < length ks \<Longrightarrow>
   (ks ! i \<in> set (map fst (fst (resolveLoop this ks ctx))))
     = (ks ! i \<in> fst ` set (reflections (turnContexts this ks ctx ! i)))"
proof (induction ks arbitrary: ctx i)
  case Nil
  then show ?case by simp
next
  case (Cons k ks)
  define next_ctx where
    "next_ctx = (case map_of (reflections ctx) k of None \<Rightarrow> ctx | Some r \<Rightarrow> trigger this (EVENT_RESOLVE r) ctx)"
  have rest: "set (map fst (fst (resolveLoop this ks next_ctx))) \<subseteq> set ks" by (rule resolveLoop_ids)
  have ids: "set (map fst (fst (resolveLoop this (k # ks) ctx)))
      = (if map_of (reflections ctx) k = None then {} else {k})
          \<union> set (map fst (fst (resolveLoop this ks next_ctx)))"
    by (auto simp: fst_resolveLoop_Cons next_ctx_def simp del: resolveLoop.simps split: option.splits)
  have fresh: "k \<notin> set ks" and d: "distinct ks" using Cons.prems(1) by simp_all
  show ?case
  proof (cases i)
    case 0
    have "k \<notin> set (map fst (fst (resolveLoop this ks next_ctx)))" using rest fresh by blast
    then show ?thesis using 0 ids by (simp add: map_of_eq_None_iff)
  next
    case (Suc j)
    then have j: "j < length ks" using Cons.prems(2) by simp
    then have "ks ! j \<noteq> k" using fresh nth_mem by metis
    then have "((k # ks) ! i \<in> set (map fst (fst (resolveLoop this (k # ks) ctx))))
        = (ks ! j \<in> set (map fst (fst (resolveLoop this ks next_ctx))))"
      using ids Suc by auto
    also have "\<dots> = (ks ! j \<in> fst ` set (reflections (turnContexts this ks next_ctx ! j)))"
      using Cons.IH[OF d j] .
    finally show ?thesis using Suc by (simp add: next_ctx_def)
  qed
qed

lemma resolveLoop_order:
  "distinct ks \<Longrightarrow>
   map fst (fst (resolveLoop this ks ctx))
     = filter (\<lambda>k. k \<in> set (map fst (fst (resolveLoop this ks ctx)))) ks"
proof (induction ks arbitrary: ctx)
  case Nil
  then show ?case by simp
next
  case (Cons k ks)
  then have fresh: "k \<notin> set ks" and d: "distinct ks" by simp_all
  show ?case
  proof (cases "map_of (reflections ctx) k")
    case None
    define ids' where "ids' = map fst (fst (resolveLoop this ks ctx))"
    have ih: "ids' = filter (\<lambda>j. j \<in> set ids') ks"
      unfolding ids'_def using Cons.IH[OF d] .
    have "set ids' \<subseteq> set ks" unfolding ids'_def by (rule resolveLoop_ids)
    then have "k \<notin> set ids'" using fresh by blast
    then have f: "filter (\<lambda>j. j \<in> set ids') (k # ks) = filter (\<lambda>j. j \<in> set ids') ks" by simp
    have head: "map fst (fst (resolveLoop this (k # ks) ctx)) = ids'"
      using None by (simp add: fst_resolveLoop_Cons ids'_def del: resolveLoop.simps)
    show ?thesis unfolding head f by (rule ih)
  next
    case (Some r)
    define ids' where "ids' = map fst (fst (resolveLoop this ks (trigger this (EVENT_RESOLVE r) ctx)))"
    have ih: "ids' = filter (\<lambda>j. j \<in> set ids') ks"
      unfolding ids'_def using Cons.IH[OF d] .
    have "filter (\<lambda>j. j = k \<or> j \<in> set ids') ks = filter (\<lambda>j. j \<in> set ids') ks"
      using fresh by (intro filter_cong) auto
    then have f: "filter (\<lambda>j. j \<in> set (k # ids')) (k # ks) = k # filter (\<lambda>j. j \<in> set ids') ks"
      by simp
    have head: "map fst (fst (resolveLoop this (k # ks) ctx)) = k # ids'"
      using Some by (simp add: fst_resolveLoop_Cons ids'_def del: resolveLoop.simps)
    show ?thesis unfolding head f by (rule arg_cong[where f = "(#) k", OF ih])
  qed
qed

lemma resolveLoop_all:
  fixes this :: "('r, 'x, 'ty) converter"
  assumes keep: "\<forall>r c. fst ` set (reflections c) \<subseteq> fst ` set (reflections (listeners this (EVENT_RESOLVE r) c))"
  shows "set ks \<subseteq> fst ` set (reflections ctx) \<Longrightarrow> map fst (fst (resolveLoop this ks ctx)) = ks"
proof (induction ks arbitrary: ctx)
  case Nil
  then show ?case by simp
next
  case (Cons k ks)
  then have "k \<in> fst ` set (reflections ctx)" by simp
  then obtain r where r: "map_of (reflections ctx) k = Some r"
    by (metis map_of_eq_None_iff not_None_eq)
  have "fst ` set (reflections ctx) \<subseteq> fst ` set (reflections (listeners this (EVENT_RESOLVE r) ctx))"
    using keep by blast
  moreover have "set ks \<subseteq> fst ` set (reflections ctx)" using Cons.prems by simp
  ultimately have "set ks \<subseteq> fst ` set (reflections (trigger this (EVENT_RESOLVE r) ctx))"
    unfolding trigger_def by (rule order_trans[rotated])
  from Cons.IH[OF this] r show ?case by (simp add: fst_resolveLoop_Cons del: resolveLoop.simps)
qed

lemma resolveLoop_visits:
  fixes this :: "('r, 'x, 'ty) converter"
  assumes keep: "\<forall>r c. k \<in> fst ` set (reflections c)
                   \<longrightarrow> k \<in> fst ` set (reflections (listeners this (EVENT_RESOLVE r) c))"
  shows "k \<in> set ks \<Longrightarrow> k \<in> fst ` set (reflections ctx) \<Longrightarrow>
         k \<in> set (map fst (fst (resolveLoop this ks ctx)))"
proof (induction ks arbitrary: ctx)
  case Nil
  then show ?case by simp
next
  case (Cons j ks)
  show ?case
  proof (cases "map_of (reflections ctx) j")
    case None
    then have "j \<noteq> k" using Cons.prems(2) by (auto simp: map_of_eq_None_iff)
    then have "k \<in> set ks" using Cons.prems(1) by simp
    then show ?thesis using None Cons.IH[of ctx] Cons.prems(2)
      by (simp add: fst_resolveLoop_Cons del: resolveLoop.simps)
  next
    case (Some r)
    show ?thesis
    proof (cases "j = k")
      case True
      then show ?thesis using Some by (simp add: fst_resolveLoop_Cons del: resolveLoop.simps)
    next
      case False
      then have "k \<in> set ks" using Cons.prems(1) by simp
      moreover have "k \<in> fst ` set (reflections (trigger this (EVENT_RESOLVE r) ctx))"
        using keep Cons.prems(2) unfolding trigger_def by blast
      ultimately show ?thesis using Some Cons.IH[of "trigger this (EVENT_RESOLVE r) ctx"]
        by (simp add: fst_resolveLoop_Cons del: resolveLoop.simps)
    qed
  qed
qed

lemma filter_commute: "filter Q (filter P xs) = filter P (filter Q xs)"
  by (induction xs) auto

lemma filter_keeps_split:
  assumes o: "ids = filter P start"
    and s: "start = filter Q start @ filter (\<lambda>k. \<not> Q k) start"
  shows "ids = filter Q ids @ filter (\<lambda>k. \<not> Q k) ids"
proof -
  have a: "filter Q ids = filter P (filter Q start)"
    unfolding o by (rule filter_commute)
  have b: "filter (\<lambda>k. \<not> Q k) ids = filter P (filter (\<lambda>k. \<not> Q k) start)"
    unfolding o by (rule filter_commute)
  have "filter P start = filter P (filter Q start @ filter (\<lambda>k. \<not> Q k) start)"
    using s by (rule arg_cong)
  then have "ids = filter P (filter Q start) @ filter P (filter (\<lambda>k. \<not> Q k) start)"
    unfolding o by simp
  then show ?thesis unfolding a b .
qed

text \<open>
  C1, as the code has it. With \<open>start\<close> the keys of the mapping when the iteration
  starts (after the handlers of \<open>EVENT_RESOLVE_BEGIN\<close> have run) and \<open>turns\<close> the
  contexts in which the loop reaches them: the resolve pass triggers
  \<open>EVENT_RESOLVE\<close> for exactly those keys of \<open>start\<close> that the mapping still holds
  at their turn, with the reflection it holds for them then. So an id removed before
  its turn is skipped and an id added during the iteration is not visited; no id is
  visited twice. The order is that of \<open>start\<close>: the ids that are array indices
  (below \<open>2 ^ 32 - 1\<close>) in ascending order, then the other ids in the order of their
  creation. Every id of \<open>start\<close> that no handler of \<open>EVENT_RESOLVE\<close> removes is
  visited, and when the handlers remove none, the event is triggered exactly once for
  each id of \<open>start\<close>, in that order.
\<close>

theorem resolve_visits_present_ids:
  fixes this :: "('r, 'x, 'ty) converter"
  shows
  "(let ctx1 = trigger this EVENT_RESOLVE_BEGIN ctx;
        start = ownKeys (reflections ctx1);
        turns = turnContexts this start ctx1;
        fired = fst (resolve this ctx);
        ids = map fst fired
    in fired = concat (map (\<lambda>(k, c). case map_of (reflections c) k of None \<Rightarrow> [] | Some r \<Rightarrow> [(k, r)])
                        (zip start turns))
       \<and> (\<forall>i < length start.
             (start ! i \<in> set ids) = (start ! i \<in> fst ` set (reflections (turns ! i))))
       \<and> distinct ids \<and> set ids \<subseteq> set start
       \<and> ids = filter (\<lambda>k. k \<in> set ids) start
       \<and> ids = filter isArrayIndex ids @ filter (\<lambda>k. \<not> isArrayIndex k) ids
       \<and> sorted_wrt (<) (filter isArrayIndex ids)
       \<and> filter (\<lambda>k. \<not> isArrayIndex k) ids
           = filter (\<lambda>k. k \<in> set ids) (filter (\<lambda>k. \<not> isArrayIndex k) (insertionOrder (reflections ctx1)))
       \<and> (\<forall>k \<in> set start.
             (\<forall>r c. k \<in> fst ` set (reflections c)
                   \<longrightarrow> k \<in> fst ` set (reflections (listeners this (EVENT_RESOLVE r) c)))
             \<longrightarrow> k \<in> set ids)
       \<and> ((\<forall>r c. fst ` set (reflections c) \<subseteq> fst ` set (reflections (listeners this (EVENT_RESOLVE r) c)))
            \<longrightarrow> ids = start))"
proof -
  define ctx1 where "ctx1 = trigger this EVENT_RESOLVE_BEGIN ctx"
  define start where "start = ownKeys (reflections ctx1)"
  define turns where "turns = turnContexts this start ctx1"
  define fired where "fired = fst (resolveLoop this start ctx1)"
  define ids where "ids = map fst fired"
  define P where "P = (\<lambda>k. k \<in> set ids)"
  have res: "fst (resolve this ctx) = fired"
    by (simp add: resolve_def Let_def ctx1_def start_def fired_def split: prod.split)
  have d: "distinct start" unfolding start_def by (rule distinct_ownKeys)
  have 1: "fired = concat (map (\<lambda>(k, c). case map_of (reflections c) k of None \<Rightarrow> [] | Some r \<Rightarrow> [(k, r)])
                        (zip start turns))"
    unfolding fired_def turns_def by (rule resolveLoop_turns)
  have 2: "\<forall>i < length start.
             (start ! i \<in> set ids) = (start ! i \<in> fst ` set (reflections (turns ! i)))"
    unfolding ids_def fired_def turns_def using resolveLoop_present_at_turn[OF d] by blast
  have o: "ids = filter P start"
    unfolding P_def ids_def fired_def using resolveLoop_order[OF d] .
  have 3: "distinct ids" using o d by simp
  have 4: "set ids \<subseteq> set start" unfolding ids_def fired_def by (rule resolveLoop_ids)
  have s: "start = filter isArrayIndex start @ filter (\<lambda>k. \<not> isArrayIndex k) start"
    unfolding start_def by (rule ownKeys_split)
  have 5: "ids = filter isArrayIndex ids @ filter (\<lambda>k. \<not> isArrayIndex k) ids"
    using o s by (rule filter_keeps_split)
  have "filter isArrayIndex ids = filter P (filter isArrayIndex start)"
    unfolding o by (rule filter_commute)
  moreover have "sorted_wrt (<) (filter P (filter isArrayIndex start))"
    unfolding start_def by (rule sorted_wrt_filter[OF ownKeys_array_indices_ascending])
  ultimately have 6: "sorted_wrt (<) (filter isArrayIndex ids)" by simp
  have "filter (\<lambda>k. \<not> isArrayIndex k) ids = filter P (filter (\<lambda>k. \<not> isArrayIndex k) start)"
    unfolding o by (rule filter_commute)
  then have 7: "filter (\<lambda>k. \<not> isArrayIndex k) ids
           = filter P (filter (\<lambda>k. \<not> isArrayIndex k) (insertionOrder (reflections ctx1)))"
    unfolding start_def ownKeys_other_keys .
  have 8: "\<forall>k \<in> set start.
             (\<forall>r c. k \<in> fst ` set (reflections c)
                   \<longrightarrow> k \<in> fst ` set (reflections (listeners this (EVENT_RESOLVE r) c)))
             \<longrightarrow> k \<in> set ids"
  proof (intro ballI impI)
    fix k
    assume k: "k \<in> set start"
      and keep: "\<forall>r c. k \<in> fst ` set (reflections c)
                   \<longrightarrow> k \<in> fst ` set (reflections (listeners this (EVENT_RESOLVE r) c))"
    have "k \<in> fst ` set (reflections ctx1)" using k by (simp add: start_def set_ownKeys)
    then show "k \<in> set ids"
      unfolding ids_def fired_def using resolveLoop_visits[OF keep k] by blast
  qed
  have 9: "(\<forall>r c. fst ` set (reflections c) \<subseteq> fst ` set (reflections (listeners this (EVENT_RESOLVE r) c)))
            \<longrightarrow> ids = start"
    unfolding ids_def fired_def
    using resolveLoop_all[of this start ctx1] by (simp add: start_def set_ownKeys)
  show ?thesis
    unfolding Let_def res ctx1_def[symmetric] start_def[symmetric] turns_def[symmetric]
      ids_def[symmetric] P_def[symmetric]
    using 1 2 3 4 o 5 6 7 8 9 by blast
qed

theorem resolve_visits_present_ids_witness:
  "(\<forall>r c. fst ` set (reflections c)
            \<subseteq> fst ` set (reflections (listeners addingConverter (EVENT_RESOLVE r) c)))
   \<and> ownKeys (reflections (trigger addingConverter EVENT_RESOLVE_BEGIN resolveContext)) = [1, 2]
   \<and> map fst (fst (resolve addingConverter resolveContext)) = [1, 2]
   \<and> reflections (snd (resolve addingConverter resolveContext))
        = [(2, ''second''), (1, ''first''), (3, ''late'')]
   \<and> ownKeys (reflections (trigger deletingConverter EVENT_RESOLVE_BEGIN resolveContext)) = [1, 2]
   \<and> 2 \<notin> fst ` set (reflections
          (turnContexts deletingConverter [1, 2] (trigger deletingConverter EVENT_RESOLVE_BEGIN resolveContext) ! 1))
   \<and> 2 \<notin> set (map fst (fst (resolve deletingConverter resolveContext)))"
proof -
  have keep: "\<forall>r c. fst ` set (reflections c)
            \<subseteq> fst ` set (reflections (listeners addingConverter (EVENT_RESOLVE r) c))"
    by (auto simp: addingConverter_def addingListeners_def)
  have start: "ownKeys (reflections (trigger addingConverter EVENT_RESOLVE_BEGIN resolveContext)) = [1, 2]"
    by (simp add: trigger_def ownKeys_def insertionOrder_def isArrayIndex_def addingConverter_def
          addingListeners_def resolveContext_def)
  have final: "reflections (snd (resolve addingConverter resolveContext))
        = [(2, ''second''), (1, ''first''), (3, ''late'')]"
    by (simp add: resolve_def trigger_def ownKeys_def insertionOrder_def isArrayIndex_def
        addingConverter_def demoConverter_def addingListeners_def resolveContext_def Let_def)
  have all: "map fst (fst (resolve addingConverter resolveContext))
          = ownKeys (reflections (trigger addingConverter EVENT_RESOLVE_BEGIN resolveContext))"
    using resolve_visits_present_ids[of addingConverter resolveContext, unfolded Let_def] keep
    by blast
  have start': "ownKeys (reflections (trigger deletingConverter EVENT_RESOLVE_BEGIN resolveContext)) = [1, 2]"
    by (simp add: trigger_def ownKeys_def insertionOrder_def isArrayIndex_def deletingConverter_def
          demoConverter_def deletingListeners_def resolveContext_def)
  have gone: "2 \<notin> fst ` set (reflections
          (turnContexts deletingConverter [1, 2] (trigger deletingConverter EVENT_RESOLVE_BEGIN resolveContext) ! 1))"
    by (simp add: trigger_def deletingConverter_def demoConverter_def deletingListeners_def resolveContext_def)
  have iff: "\<forall>i < length [1, 2::nat].
          ([1, 2] ! i \<in> set (map fst (fst (resolve deletingConverter resolveContext))))
            = ([1, 2] ! i \<in> fst ` set (reflections
                (turnContexts deletingConverter [1, 2]
                   (trigger deletingConverter EVENT_RESOLVE_BEGIN resolveContext) ! i)))"
    using resolve_visits_present_ids[of deletingConverter resolveContext, unfolded Let_def start']
    by blast
  have skipped: "2 \<notin> set (map fst (fst (resolve deletingConverter resolveContext)))"
    using iff[rule_format, of 1] gone by simp
  show ?thesis using keep start final all start' gone skipped by simp
qed

text \<open>
  C1 as stated fails twice. With a handler that, while reflection 1 is resolved,
  deletes reflection 2, the mapping holds the ids 1 and 2 when the iteration starts and
  the event is triggered for 1 only. And ids that are no array indices are visited in
  the order of their creation, after the array indices, not in ascending order.
\<close>

theorem resolve_skips_deleted_reflection:
  "ownKeys (reflections (trigger deletingConverter EVENT_RESOLVE_BEGIN resolveContext)) = [1, 2]
   \<and> map fst (fst (resolve deletingConverter resolveContext)) = [1]
   \<and> map fst (fst (resolve deletingConverter resolveContext))
        \<noteq> ownKeys (reflections (trigger deletingConverter EVENT_RESOLVE_BEGIN resolveContext))
   \<and> map fst (fst (resolve demoConverter largeIdContext)) = [1, 4294967296, 4294967295]
   \<and> \<not> sorted (map fst (fst (resolve demoConverter largeIdContext)))"
  by (simp add: resolve_def trigger_def ownKeys_def insertionOrder_def isArrayIndex_def
        deletingConverter_def demoConverter_def deletingListeners_def recordingListeners_def
        resolveContext_def largeIdContext_def Let_def)

section \<open>The whole run\<close>

lemma convertSourceFiles_returns:
  fixes this :: "('r, 'x, 'ty) converter"
  assumes fin: "finite N" and wb: "wellBehavedConverters N this" and fuel: "card N < fuel"
  shows "set files \<subseteq> N \<Longrightarrow> validContext ctx \<Longrightarrow>
         \<exists>ctx'. convertSourceFiles fuel this ctx files = Some ctx'"
proof (induction files arbitrary: ctx)
  case Nil
  then show ?case by simp
next
  case (Cons sf rest)
  have "card (N - set (visited ctx)) \<le> card N" using fin by (simp add: card_mono)
  then have "card (N - set (visited ctx)) < fuel" using fuel by simp
  moreover have "sf \<in> N" using Cons.prems(1) by simp
  ultimately obtain ctx' r where res: "convertNode fuel this ctx sf = Some (ctx', r)"
    and pre: "prefix (arrays ctx) (arrays ctx')" and vs: "visitStack ctx' = visitStack ctx"
    using convertNode_returns[OF fin wb, of sf ctx fuel] Cons.prems(2) by blast
  have "length (arrays ctx) \<le> length (arrays ctx')" using pre by (auto simp: prefix_def)
  then have "validContext ctx'" using Cons.prems(2) vs by (simp add: validContext_def)
  moreover have "set rest \<subseteq> N" using Cons.prems(1) by simp
  ultimately show ?case using Cons.IH[of ctx'] res by simp
qed

lemma compile_errors:
  "compile fuel this app prog ctx = Some (ctx', errs) \<Longrightarrow>
   errs = getCompilerErrors app prog (includedSourceFiles app prog)"
  by (auto simp: compile_def Let_def split: if_splits option.splits)

lemma join_contains:
  "x \<in> set xs \<Longrightarrow> \<exists>pre post. join sep xs = pre @ x @ post"
proof (induction sep xs rule: join.induct)
  case (1 sep)
  then show ?case by simp
next
  case (2 sep y)
  then have "join sep [y] = [] @ x @ []" by simp
  then show ?case by blast
next
  case (3 sep y z zs)
  show ?case
  proof (cases "x = y")
    case True
    then have "join sep (y # z # zs) = [] @ x @ (sep @ join sep (z # zs))" by simp
    then show ?thesis by blast
  next
    case False
    then have "x \<in> set (z # zs)" using 3 by simp
    then obtain pre post where "join sep (z # zs) = pre @ x @ post" using 3 by blast
    then have "join sep (y # z # zs) = (y @ sep @ pre) @ x @ post" by simp
    then show ?thesis by blast
  qed
qed

lemma danglingWarning_names:
  "x \<in> set dangling \<Longrightarrow> \<exists>pre post. danglingWarning dangling = pre @ x @ post"
  unfolding danglingWarning_def by (rule join_contains) simp

lemma demo_included_clean: "includedSourceFiles demoApplication cleanProgram = [fileNode]"
  by (simp add: includedSourceFiles_def isExcluded_def demoApplication_def cleanProgram_def
        fileNode_def excludedFile_def)

lemma demo_errors_clean: "getCompilerErrors demoApplication cleanProgram [fileNode] = []"
  by (simp add: getCompilerErrors_def isRelevantError_def demoApplication_def cleanProgram_def
        fileNode_def excludedFile_def libraryDiagnostic_def)

lemma demo_run_recorded:
  "convertNode 3 demoConverter (demoContext\<lparr>other := [EVENT_BEGIN]\<rparr>) fileNode
     = Some (demoResultContext\<lparr>other := [EVENT_BEGIN]\<rparr>, None)"
  by (simp add: numeral_3_eq_3 demoConverter_def demoContext_def demoResultContext_def fileNode_def aliasNode_def
      sourceFileConverter_def aliasConverter_def
      array_includes_def array_slice_def array_push_def Let_def)

lemma clean_run:
  "convert 3 demoConverter demoApplication danglingNames cleanProgram demoContext = Some cleanRunResult"
proof -
  have t: "trigger demoConverter EVENT_BEGIN demoContext = demoContext\<lparr>other := [EVENT_BEGIN]\<rparr>"
    by (simp add: trigger_def demoConverter_def recordingListeners_def demoContext_def)
  have c: "compile 3 demoConverter demoApplication cleanProgram (demoContext\<lparr>other := [EVENT_BEGIN]\<rparr>)
      = Some (demoResultContext\<lparr>other := [EVENT_BEGIN]\<rparr>, [])"
    by (simp add: compile_def demo_included_clean demo_errors_clean demo_run_recorded)
  show ?thesis
    unfolding convert_def t Let_def c
    by (simp add: cleanRunResult_def demoResultContext_def
        trigger_def resolve_def ownKeys_def insertionOrder_def isArrayIndex_def danglingNames_def Let_def
        demoConverter_def recordingListeners_def)
qed

text \<open>
  C8. A run reaches the resolve pass with an empty errors list when the classifier
  returned nothing. In such a run dangling references are not fatal: when
  \<open>convert\<close> returns, the errors of the result are empty whatever
  \<open>getDanglingReferences\<close> finds (in every run they are the list the classifier
  gave); when names dangle after the resolve pass, \<open>convert\<close> passes one message to
  \<open>logger.warn\<close>, and each of the names occurs in it; it passes none otherwise (first
  part). With well-behaved converters and fuel for the nodes of the program, such a
  run returns, with no errors (second part).
\<close>

theorem convert_dangling_nonfatal:
  fixes this :: "('r, 'x, 'ty) converter"
  shows
  "(convert fuel this app getDanglingReferences prog ctx0 = Some res \<longrightarrow>
      errors res = getCompilerErrors app prog (includedSourceFiles app prog)
      \<and> (getCompilerErrors app prog (includedSourceFiles app prog) = [] \<longrightarrow> errors res = [])
      \<and> (\<exists>ctx2 errs. compile fuel this app prog (trigger this EVENT_BEGIN ctx0) = Some (ctx2, errs)
            \<and> (let dangling = getDanglingReferences (snd (resolve this ctx2)) in
                  warnings res = (if dangling = [] then [] else [danglingWarning dangling])
                  \<and> (\<forall>x \<in> set dangling. \<exists>pre post. danglingWarning dangling = pre @ x @ post))))
   \<and> (getCompilerErrors app prog (includedSourceFiles app prog) = []
        \<and> finite N \<and> wellBehavedConverters N this \<and> set (includedSourceFiles app prog) \<subseteq> N
        \<and> validContext (trigger this EVENT_BEGIN ctx0) \<and> card N < fuel
      \<longrightarrow> (\<exists>res'. convert fuel this app getDanglingReferences prog ctx0 = Some res'
             \<and> errors res' = []))"
proof (intro conjI impI)
  assume c: "convert fuel this app getDanglingReferences prog ctx0 = Some res"
  then obtain ctx2 errs where cp: "compile fuel this app prog (trigger this EVENT_BEGIN ctx0) = Some (ctx2, errs)"
    by (auto simp: convert_def Let_def split: option.splits)
  have res: "res = \<lparr> errors = errs, project = trigger this EVENT_END (snd (resolve this ctx2)),
        warnings = (if getDanglingReferences (snd (resolve this ctx2)) \<noteq> []
                    then [danglingWarning (getDanglingReferences (snd (resolve this ctx2)))] else []),
        resolved = fst (resolve this ctx2) \<rparr>"
    using c cp by (auto simp: convert_def Let_def split: prod.splits)
  show e: "errors res = getCompilerErrors app prog (includedSourceFiles app prog)"
    using compile_errors[OF cp] res by simp
  show "errors res = []" if "getCompilerErrors app prog (includedSourceFiles app prog) = []"
    using e that by simp
  show "\<exists>ctx2 errs. compile fuel this app prog (trigger this EVENT_BEGIN ctx0) = Some (ctx2, errs)
            \<and> (let dangling = getDanglingReferences (snd (resolve this ctx2)) in
                  warnings res = (if dangling = [] then [] else [danglingWarning dangling])
                  \<and> (\<forall>x \<in> set dangling. \<exists>pre post. danglingWarning dangling = pre @ x @ post))"
    using cp res danglingWarning_names by (intro exI[of _ ctx2] exI[of _ errs]) (simp add: Let_def)
next
  assume a: "getCompilerErrors app prog (includedSourceFiles app prog) = []
        \<and> finite N \<and> wellBehavedConverters N this \<and> set (includedSourceFiles app prog) \<subseteq> N
        \<and> validContext (trigger this EVENT_BEGIN ctx0) \<and> card N < fuel"
  then obtain ctx' where "convertSourceFiles fuel this (trigger this EVENT_BEGIN ctx0) (includedSourceFiles app prog) = Some ctx'"
    using convertSourceFiles_returns[of N this fuel "includedSourceFiles app prog" "trigger this EVENT_BEGIN ctx0"]
    by blast
  then have "compile fuel this app prog (trigger this EVENT_BEGIN ctx0) = Some (ctx', [])"
    using a by (simp add: compile_def Let_def)
  then show "\<exists>res'. convert fuel this app getDanglingReferences prog ctx0 = Some res' \<and> errors res' = []"
    by (auto simp: convert_def Let_def split: prod.splits)
qed

theorem convert_dangling_nonfatal_witness:
  "getCompilerErrors demoApplication cleanProgram (includedSourceFiles demoApplication cleanProgram) = []
   \<and> convert 3 demoConverter demoApplication danglingNames cleanProgram demoContext = Some cleanRunResult
   \<and> errors cleanRunResult = []
   \<and> reflections (project cleanRunResult) = [(0, ''A'')]
   \<and> danglingNames (project cleanRunResult) = [''Foo'']
   \<and> warnings cleanRunResult = [danglingWarning [''Foo'']]
   \<and> finite demoNodes \<and> wellBehavedConverters demoNodes demoConverter
   \<and> set (includedSourceFiles demoApplication cleanProgram) \<subseteq> demoNodes
   \<and> validContext (trigger demoConverter EVENT_BEGIN demoContext) \<and> card demoNodes < 3"
proof -
  have h: "finite demoNodes \<and> set (includedSourceFiles demoApplication cleanProgram) \<subseteq> demoNodes
      \<and> validContext (trigger demoConverter EVENT_BEGIN demoContext) \<and> card demoNodes < 3"
    by (simp add: demo_included_clean demoNodes_def validContext_def trigger_def demoConverter_def
          recordingListeners_def demoContext_def fileNode_def aliasNode_def)
  have cl: "getCompilerErrors demoApplication cleanProgram (includedSourceFiles demoApplication cleanProgram) = []"
    by (simp add: demo_included_clean demo_errors_clean)
  note t = convert_dangling_nonfatal[where fuel = 3 and this = demoConverter and app = demoApplication
        and getDanglingReferences = danglingNames and prog = cleanProgram and ?ctx0.0 = demoContext
        and res = cleanRunResult and N = demoNodes]
  have "errors cleanRunResult = []"
    using t[THEN conjunct1] clean_run cl by blast
  moreover have "\<exists>res'. convert 3 demoConverter demoApplication danglingNames cleanProgram demoContext = Some res'
      \<and> errors res' = []"
    using t[THEN conjunct2] cl h wellBehaved_demoConverter by blast
  moreover have "reflections (project cleanRunResult) = [(0, ''A'')]
      \<and> danglingNames (project cleanRunResult) = [''Foo'']
      \<and> warnings cleanRunResult = [danglingWarning [''Foo'']]"
    by (simp add: cleanRunResult_def demoResultContext_def danglingNames_def)
  ultimately show ?thesis
    using clean_run h cl wellBehaved_demoConverter by simp
qed

section \<open>The type dispatch chains\<close>

lemma sort_key_snoc_sorted:
  "sort_key f (sort_key f xs @ [c]) = sort_key f (xs @ [c])"
proof -
  have "sort_key f (xs @ [c]) = sort_key f (sort_key f xs @ [c])"
  proof (rule properties_for_sort_key)
    show "mset (sort_key f (sort_key f xs @ [c])) = mset (xs @ [c])" by simp
    show "sorted (map f (sort_key f (sort_key f xs @ [c])))" by simp
    fix k
    show "filter (\<lambda>x. f k = f x) (sort_key f (sort_key f xs @ [c])) = filter (\<lambda>x. f k = f x) (xs @ [c])"
      using sort_key_stable[of f "f k" "sort_key f xs @ [c]"] sort_key_stable[of f "f k" xs]
      by (simp add: eq_commute[of "f k"])
  qed
  then show ?thesis by simp
qed

lemma remove1_sort_key:
  "remove1 c (sort_key f xs) = sort_key f (remove1 c xs)"
proof -
  have "sort_key f (remove1 c xs) = remove1 c (sort_key f xs)"
  proof (rule properties_for_sort_key)
    show "mset (remove1 c (sort_key f xs)) = mset (remove1 c xs)" by simp
    show "sorted (map f (remove1 c (sort_key f xs)))" by (simp add: sorted_map_remove1)
    fix k
    show "filter (\<lambda>x. f k = f x) (remove1 c (sort_key f xs)) = filter (\<lambda>x. f k = f x) (remove1 c xs)"
      using sort_key_stable[of f "f k" xs]
      by (simp add: filter_remove1 eq_commute[of "f k"])
  qed
  then show ?thesis by simp
qed

lemma applyOps_chains:
  fixes this :: "('r, 'x, 'ty) converter"
  shows "typeNodeConverters this = sortByPriority (filter hasNodeMembers cs) \<Longrightarrow>
         typeTypeConverters this = sortByPriority (filter hasTypeMembers cs) \<Longrightarrow>
         typeNodeConverters (applyOps ops this) = sortByPriority (filter hasNodeMembers (registered ops cs))
         \<and> typeTypeConverters (applyOps ops this) = sortByPriority (filter hasTypeMembers (registered ops cs))"
proof (induction ops arbitrary: this cs)
  case Nil
  then show ?case by simp
next
  case (Cons op ops)
  show ?case
  proof (cases op)
    case (Register c)
    have "typeNodeConverters (addTypeConverter c this) = sortByPriority (filter hasNodeMembers (cs @ [c]))"
      using Cons.prems(1) by (simp add: addTypeConverter_def sortByPriority_def sort_key_snoc_sorted Let_def)
    moreover have "typeTypeConverters (addTypeConverter c this) = sortByPriority (filter hasTypeMembers (cs @ [c]))"
      using Cons.prems(2) by (simp add: addTypeConverter_def sortByPriority_def sort_key_snoc_sorted Let_def)
    ultimately show ?thesis using Cons.IH[of "addTypeConverter c this" "cs @ [c]"] Register by simp
  next
    case (Unregister c)
    have "typeNodeConverters (removeTypeConverter c this) = sortByPriority (filter hasNodeMembers (remove1 c cs))"
      using Cons.prems(1) by (simp add: removeTypeConverter_def sortByPriority_def remove1_sort_key filter_remove1 Let_def)
    moreover have "typeTypeConverters (removeTypeConverter c this) = sortByPriority (filter hasTypeMembers (remove1 c cs))"
      using Cons.prems(2) by (simp add: removeTypeConverter_def sortByPriority_def remove1_sort_key filter_remove1 Let_def)
    ultimately show ?thesis using Cons.IH[of "removeTypeConverter c this" "remove1 c cs"] Unregister by simp
  qed
qed

lemma descendingPriority_sortByPriority: "descendingPriority (sortByPriority cs)"
proof -
  have "sorted (map (\<lambda>a. - priority a) (sort_key (\<lambda>a. - priority a) cs))" by simp
  then show ?thesis
    by (simp add: descendingPriority_def sortByPriority_def sorted_wrt_map)
qed

lemma sortByPriority_stable:
  "filter (\<lambda>c. priority c = p) (sortByPriority cs) = filter (\<lambda>c. priority c = p) cs"
  using sort_key_stable[of "\<lambda>a. - priority a" "- p" cs]
  by (simp add: sortByPriority_def)

text \<open>
  C7. After any history of registrations and removals of type converters, starting
  from an initialised converter, both chains are in descending order of priority, hold
  exactly the registered components that have the members of the chain, and hold the
  components of one priority in the order of their registration.
\<close>

theorem type_chains_sorted_stable:
  fixes this0 :: "('r, 'x, 'ty) converter"
  shows
  "(let this = applyOps ops (initialize this0); regs = registered ops [] in
      descendingPriority (typeNodeConverters this) \<and> descendingPriority (typeTypeConverters this)
      \<and> mset (typeNodeConverters this) = mset (filter hasNodeMembers regs)
      \<and> mset (typeTypeConverters this) = mset (filter hasTypeMembers regs)
      \<and> (\<forall>p. filter (\<lambda>c. priority c = p) (typeNodeConverters this)
               = filter (\<lambda>c. priority c = p) (filter hasNodeMembers regs))
      \<and> (\<forall>p. filter (\<lambda>c. priority c = p) (typeTypeConverters this)
               = filter (\<lambda>c. priority c = p) (filter hasTypeMembers regs)))"
proof -
  have "typeNodeConverters (initialize this0) = sortByPriority (filter hasNodeMembers [])"
    "typeTypeConverters (initialize this0) = sortByPriority (filter hasTypeMembers [])"
    by (simp_all add: initialize_def sortByPriority_def)
  from applyOps_chains[OF this, of ops]
  show ?thesis
    by (simp add: Let_def descendingPriority_sortByPriority sortByPriority_stable)
      (simp add: sortByPriority_def)
qed

theorem type_chains_sorted_stable_witness:
  "typeNodeConverters (applyOps historyOps (initialize demoConverter))
     = [aliasTypeConverter, referenceConverter, arrayConverter]
   \<and> registered historyOps [] = [referenceConverter, aliasTypeConverter, arrayConverter]
   \<and> descendingPriority (typeNodeConverters (applyOps historyOps (initialize demoConverter)))
   \<and> filter (\<lambda>c. priority c = 0) (typeNodeConverters (applyOps historyOps (initialize demoConverter)))
       = [referenceConverter, arrayConverter]"
proof -
  have ne: "arrayConverter \<noteq> referenceConverter" "arrayConverter \<noteq> aliasTypeConverter"
    by (simp_all add: arrayConverter_def aliasTypeConverter_def referenceConverter_def)
  have r: "registered historyOps [] = [referenceConverter, aliasTypeConverter, arrayConverter]"
    using ne by (simp add: historyOps_def)
  have h: "hasNodeMembers arrayConverter" "hasNodeMembers referenceConverter" "hasNodeMembers aliasTypeConverter"
    "priority arrayConverter = 0" "priority referenceConverter = 0" "priority aliasTypeConverter = 100"
    by (simp_all add: hasNodeMembers_def arrayConverter_def aliasTypeConverter_def referenceConverter_def)
  note t = type_chains_sorted_stable[of historyOps demoConverter, unfolded Let_def]
  have d: "descendingPriority (typeNodeConverters (applyOps historyOps (initialize demoConverter)))"
    using t by blast
  have f: "filter (\<lambda>c. priority c = 0) (typeNodeConverters (applyOps historyOps (initialize demoConverter)))
       = [referenceConverter, arrayConverter]"
    using t r h by simp
  have c: "typeNodeConverters (applyOps historyOps (initialize demoConverter))
     = [aliasTypeConverter, referenceConverter, arrayConverter]"
    using ne h
    by (simp add: historyOps_def initialize_def addTypeConverter_def removeTypeConverter_def Let_def
          sortByPriority_def hasTypeMembers_def)
  show ?thesis using c r d f by simp
qed

lemma registry_chains:
  fixes this0 :: "('r, 'x, 'ty) converter"
  shows "list_all hasNodeMembers (typeNodeConverters (applyOps ops (initialize this0)))
     \<and> list_all hasTypeMembers (typeTypeConverters (applyOps ops (initialize this0)))
     \<and> descendingPriority (typeNodeConverters (applyOps ops (initialize this0)))
     \<and> descendingPriority (typeTypeConverters (applyOps ops (initialize this0)))"
proof -
  have "typeNodeConverters (initialize this0) = sortByPriority (filter hasNodeMembers [])"
    "typeTypeConverters (initialize this0) = sortByPriority (filter hasTypeMembers [])"
    by (simp_all add: initialize_def sortByPriority_def)
  from applyOps_chains[OF this, of ops]
  show ?thesis
    by (simp add: descendingPriority_sortByPriority) (simp add: sortByPriority_def list_all_iff)
qed

section \<open>Type dispatch\<close>

lemma scanNodeChain_find:
  "list_all hasNodeMembers chain \<Longrightarrow>
   scanNodeChain chain ctx nd ty =
     (case find (nodeSupports ctx nd ty) chain of
        None \<Rightarrow> None
      | Some c \<Rightarrow> Some (Inr (case convertNodeMember c of
                               Some conv \<Rightarrow> conv ctx nd ty | None \<Rightarrow> (ctx, None))))"
  by (induction chain) (auto simp: hasNodeMembers_def nodeSupports_def)

lemma scanTypeChain_find:
  "list_all hasTypeMembers chain \<Longrightarrow>
   scanTypeChain chain ctx t =
     (case find (typeSupports ctx t) chain of
        None \<Rightarrow> None
      | Some c \<Rightarrow> Some (Inr (case convertTypeMember c of
                               Some conv \<Rightarrow> conv ctx t | None \<Rightarrow> (ctx, None))))"
  by (induction chain) (auto simp: hasTypeMembers_def typeSupports_def)

lemma find_highest_priority:
  assumes "descendingPriority chain" "find P chain = Some c" "c' \<in> set chain" "P c'"
  shows "priority c' \<le> priority c"
  using assms
proof (induction chain)
  case Nil
  then show ?case by simp
next
  case (Cons a chain)
  show ?case
  proof (cases "P a")
    case True
    then have "c = a" using Cons.prems(2) by simp
    then show ?thesis using Cons.prems(1,3) by (auto simp: descendingPriority_def)
  next
    case False
    then have "find P chain = Some c" "c' \<in> set chain" using Cons.prems by auto
    moreover have "descendingPriority chain" using Cons.prems(1) by (simp add: descendingPriority_def)
    ultimately show ?thesis using Cons.IH Cons.prems(4) by blast
  qed
qed

lemma typed_chains:
  "typeNodeConverters typedConverter = [aliasTypeConverter, arrayConverter, referenceConverter]
   \<and> typeTypeConverters typedConverter = [referenceConverter]"
  by (simp add: typedConverter_def demoOps_def initialize_def addTypeConverter_def Let_def
        hasNodeMembers_def hasTypeMembers_def sortByPriority_def
        arrayConverter_def aliasTypeConverter_def referenceConverter_def)

text \<open>
  C4. On chains whose entries have the members of their chain (as
  \<open>addTypeConverter\<close> ensures, see \<open>registry_chains\<close>), \<open>convertType\<close> raises
  no error and returns what the specification's dispatch returns: with a node, the type
  is looked up only when none is given, and the first converter of the node-based chain
  whose \<open>supportsNode\<close> holds converts; without a node, or when no node-based
  converter matched, and with a type, the first converter of the type-based chain
  whose \<open>supportsType\<close> holds converts; otherwise no type is produced (first
  part). On a chain in descending order of priority, the converter found first has the
  highest priority among those that support the input (second and third part).
\<close>

theorem convertType_dispatch:
  fixes this :: "('r, 'x, 'ty) converter"
  shows
  "(list_all hasNodeMembers (typeNodeConverters this) \<and> list_all hasTypeMembers (typeTypeConverters this)
      \<longrightarrow> convertType this getTypeAtLocation ctx node_arg type_arg
            = Inr (convertType_spec this getTypeAtLocation ctx node_arg type_arg))
   \<and> (descendingPriority (typeNodeConverters this)
        \<and> find (nodeSupports ctx nd ty) (typeNodeConverters this) = Some c
        \<and> c' \<in> set (typeNodeConverters this) \<and> nodeSupports ctx nd ty c'
      \<longrightarrow> priority c' \<le> priority c)
   \<and> (descendingPriority (typeTypeConverters this)
        \<and> find (typeSupports ctx t) (typeTypeConverters this) = Some c
        \<and> c' \<in> set (typeTypeConverters this) \<and> typeSupports ctx t c'
      \<longrightarrow> priority c' \<le> priority c)"
proof (intro conjI impI)
  assume "list_all hasNodeMembers (typeNodeConverters this) \<and> list_all hasTypeMembers (typeTypeConverters this)"
  then show "convertType this getTypeAtLocation ctx node_arg type_arg
            = Inr (convertType_spec this getTypeAtLocation ctx node_arg type_arg)"
    by (simp add: convertType_def convertType_spec_def typeChain_spec_def scanNodeChain_find
          scanTypeChain_find Let_def split: option.splits)
next
  assume "descendingPriority (typeNodeConverters this)
        \<and> find (nodeSupports ctx nd ty) (typeNodeConverters this) = Some c
        \<and> c' \<in> set (typeNodeConverters this) \<and> nodeSupports ctx nd ty c'"
  then show "priority c' \<le> priority c" using find_highest_priority by blast
next
  assume "descendingPriority (typeTypeConverters this)
        \<and> find (typeSupports ctx t) (typeTypeConverters this) = Some c
        \<and> c' \<in> set (typeTypeConverters this) \<and> typeSupports ctx t c'"
  then show "priority c' \<le> priority c" using find_highest_priority by blast
qed

theorem convertType_dispatch_witness:
  "list_all hasNodeMembers (typeNodeConverters typedConverter)
   \<and> list_all hasTypeMembers (typeTypeConverters typedConverter)
   \<and> descendingPriority (typeNodeConverters typedConverter)
   \<and> find (nodeSupports demoContext arrayTypeNode None) (typeNodeConverters typedConverter)
        = Some aliasTypeConverter
   \<and> arrayConverter \<in> set (typeNodeConverters typedConverter)
   \<and> nodeSupports demoContext arrayTypeNode None arrayConverter
   \<and> priority arrayConverter \<le> priority aliasTypeConverter
   \<and> convertType typedConverter noTypeAtLocation demoContext (Some arrayTypeNode) None
        = Inr (demoContext, Some ''alias'')
   \<and> convertType typedConverter noTypeAtLocation demoContext None (Some 7)
        = Inr (demoContext, Some ''reference'')
   \<and> convertType typedConverter noTypeAtLocation demoContext None None = Inr (demoContext, None)"
proof -
  have m: "list_all hasNodeMembers (typeNodeConverters typedConverter)
     \<and> list_all hasTypeMembers (typeTypeConverters typedConverter)"
    by (simp add: typed_chains hasNodeMembers_def hasTypeMembers_def
          arrayConverter_def aliasTypeConverter_def referenceConverter_def)
  have d: "descendingPriority (typeNodeConverters typedConverter)"
    by (simp add: typed_chains descendingPriority_def
          arrayConverter_def aliasTypeConverter_def referenceConverter_def)
  have f: "find (nodeSupports demoContext arrayTypeNode None) (typeNodeConverters typedConverter)
        = Some aliasTypeConverter"
    by (simp add: typed_chains nodeSupports_def aliasTypeConverter_def arrayTypeNode_def)
  have s: "arrayConverter \<in> set (typeNodeConverters typedConverter)
     \<and> nodeSupports demoContext arrayTypeNode None arrayConverter"
    by (simp add: typed_chains nodeSupports_def arrayConverter_def arrayTypeNode_def)
  note t = convertType_dispatch[where this = typedConverter and getTypeAtLocation = noTypeAtLocation
      and ctx = demoContext and nd = arrayTypeNode and ty = None and c = aliasTypeConverter
      and c' = arrayConverter]
  have p: "priority arrayConverter \<le> priority aliasTypeConverter"
    using t[THEN conjunct2, THEN conjunct1] d f s by blast
  have e: "\<And>node_arg type_arg. convertType typedConverter noTypeAtLocation demoContext node_arg type_arg
        = Inr (convertType_spec typedConverter noTypeAtLocation demoContext node_arg type_arg)"
    using t[THEN conjunct1] m by blast
  have 1: "convertType_spec typedConverter noTypeAtLocation demoContext (Some arrayTypeNode) None
        = (demoContext, Some ''alias'')"
    by (simp add: convertType_spec_def typeChain_spec_def typed_chains nodeSupports_def typeSupports_def
          noTypeAtLocation_def aliasTypeConverter_def arrayTypeNode_def)
  have 2: "convertType_spec typedConverter noTypeAtLocation demoContext None (Some 7)
        = (demoContext, Some ''reference'')"
    by (simp add: convertType_spec_def typeChain_spec_def typed_chains nodeSupports_def typeSupports_def
          noTypeAtLocation_def referenceConverter_def)
  have 3: "convertType_spec typedConverter noTypeAtLocation demoContext None None = (demoContext, None)"
    by (simp add: convertType_spec_def typeChain_spec_def)
  show ?thesis using m d f s p e[of "Some arrayTypeNode" None] e[of None "Some 7"] e[of None None] 1 2 3
    by simp
qed

end
